theory Spec2Isabelle
  imports Complex_Main "HOL-Library.Sublist" "HOL-Library.Multiset"
begin

section \<open>SmartBackup: change detection, snapshot building and retention\<close>

text \<open>
  A shallow embedding of \<^verbatim>\<open>src/smartbackup.py\<close>. The methods of the class
  \<^verbatim>\<open>SmartBackup\<close> become functions over an explicit state (the object's
  \<^verbatim>\<open>configs\<close>, \<^verbatim>\<open>backup_index\<close> and logger, the counters of a run, and the
  list of changes the run made to the file system). Everything the program reads from the
  operating system (directory listings, \<^verbatim>\<open>stat\<close>, file contents, the clock, whether a
  copy, a \<^verbatim>\<open>mkdir\<close>, \<^verbatim>\<open>tar\<close> or a deletion succeeds) is a field of an environment
  record. The digest \<^verbatim>\<open>hashlib.md5\<close> is a parameter \<open>md5\<close> of the functions that hash.
\<close>

subsection \<open>Paths\<close>

text \<open>
  A \<^verbatim>\<open>pathlib.Path\<close> on POSIX is an anchor (\<^verbatim>\<open>''\<close>, \<^verbatim>\<open>'/'\<close> or \<^verbatim>\<open>'//'\<close>) and a
  list of parts; \<^verbatim>\<open>str\<close> joins the parts with slashes and prints the path without
  anchor and parts as a single dot.
\<close>

datatype path = Path (anchor: string) (parts: "string list")

fun join_parts :: "string list \<Rightarrow> string" where
  "join_parts [] = []"
| "join_parts [x] = x"
| "join_parts (x # y # ys) = x @ ''/'' @ join_parts (y # ys)"

definition str_path :: "path \<Rightarrow> string" where
  "str_path p =
     (if anchor p = [] \<and> parts p = [] then ''.'' else anchor p @ join_parts (parts p))"

text \<open>\<^verbatim>\<open>s.split('/')\<close>.\<close>

fun split_slash :: "string \<Rightarrow> string list" where
  "split_slash [] = [[]]"
| "split_slash (c # cs) =
     (if c = CHR ''/'' then [] # split_slash cs
      else (case split_slash cs of
              [] \<Rightarrow> [[c]]
            | w # ws \<Rightarrow> (c # w) # ws))"

text \<open>
  \<^verbatim>\<open>Path(s)\<close>: exactly two leading slashes are kept as the anchor \<^verbatim>\<open>'//'\<close>, any other
  number of leading slashes is the anchor \<^verbatim>\<open>'/'\<close>; empty parts and single dots are
  dropped, \<^verbatim>\<open>'..'\<close> is kept.
\<close>

definition anchor_of :: "string \<Rightarrow> string" where
  "anchor_of s =
     (if prefix ''//'' s \<and> \<not> prefix ''///'' s then ''//''
      else if prefix ''/'' s then ''/''
      else [])"

definition Path_of :: "string \<Rightarrow> path" where
  "Path_of s = Path (anchor_of s) (filter (\<lambda>w. w \<noteq> [] \<and> w \<noteq> ''.'') (split_slash s))"

text \<open>\<^verbatim>\<open>a / b\<close> for two paths, and \<^verbatim>\<open>a / s\<close> for a string: an anchored right operand
  replaces the left one.\<close>

definition pjoin_path :: "path \<Rightarrow> path \<Rightarrow> path" where
  "pjoin_path a b = (if anchor b \<noteq> [] then b else Path (anchor a) (parts a @ parts b))"

definition pjoin :: "path \<Rightarrow> string \<Rightarrow> path" where
  "pjoin a s = pjoin_path a (Path_of s)"

text \<open>
  \<^verbatim>\<open>Path(os.path.join(root, n))\<close> and \<^verbatim>\<open>root_path / n\<close> for a name \<open>n\<close> that the
  operating system lists in a directory (no slash, neither empty nor a dot): one more part.
\<close>

definition child :: "path \<Rightarrow> string \<Rightarrow> path" where
  "child p n = Path (anchor p) (parts p @ [n])"

text \<open>\<^verbatim>\<open>p.name\<close>, \<^verbatim>\<open>p.parent\<close> and \<^verbatim>\<open>p.relative_to(q)\<close> (which raises
  \<^verbatim>\<open>ValueError\<close>, here \<open>None\<close>, when \<open>p\<close> does not extend \<open>q\<close>).\<close>

definition pname :: "path \<Rightarrow> string" where
  "pname p = (if parts p = [] then [] else last (parts p))"

definition parent :: "path \<Rightarrow> path" where
  "parent p = Path (anchor p) (butlast (parts p))"

definition relative_to :: "path \<Rightarrow> path \<Rightarrow> path option" where
  "relative_to p q =
     (if anchor p = anchor q \<and> prefix (parts q) (parts p)
      then Some (Path [] (drop (length (parts q)) (parts p)))
      else None)"

text \<open>
  \<^verbatim>\<open>p.suffix\<close> and \<^verbatim>\<open>p.with_suffix(sfx)\<close>: the suffix of a name starts at its last dot,
  unless that dot is the first or the last character; \<^verbatim>\<open>with_suffix\<close> raises
  \<^verbatim>\<open>ValueError\<close> (here \<open>None\<close>) on a path without a name.
\<close>

definition py_suffix :: "string \<Rightarrow> string" where
  "py_suffix nm =
     (if CHR ''.'' \<notin> set nm then []
      else let i = length nm - 1 - length (takeWhile (\<lambda>c. c \<noteq> CHR ''.'') (rev nm))
           in if 0 < i \<and> i < length nm - 1 then drop i nm else [])"

definition with_suffix :: "path \<Rightarrow> string \<Rightarrow> path option" where
  "with_suffix p sfx =
     (if pname p = [] then None
      else let nm = pname p; old = py_suffix nm
           in Some (Path (anchor p)
                (butlast (parts p) @ [take (length nm - length old) nm @ sfx])))"

subsection \<open>Configuration, file records and the environment\<close>

text \<open>The dataclass \<^verbatim>\<open>BackupConfig\<close>; \<^verbatim>\<open>exclude_patterns\<close> may be \<^verbatim>\<open>None\<close>, and
  \<^verbatim>\<open>max_backups\<close> is a Python integer.\<close>

record BackupConfig =
  name :: string
  source_dirs :: "string list"
  destination :: string
  schedule :: string
  compression :: bool
  incremental :: bool
  exclude_patterns :: "string list option"
  max_backups :: int

text \<open>
  The dictionary that \<^verbatim>\<open>get_file_info\<close> returns and the index stores: the keys
  \<^verbatim>\<open>'size'\<close>, \<^verbatim>\<open>'mtime'\<close>, \<^verbatim>\<open>'hash'\<close>, each present or absent (\<^verbatim>\<open>d.get(k)\<close> is
  \<open>None\<close> for an absent key). A modification time is a finite float, read here as the
  rational number it denotes; the code only compares such times.
\<close>

record file_info =
  size_f :: "nat option"
  mtime :: "rat option"
  hash :: "string option"

definition empty_info :: file_info where
  "empty_info = \<lparr>size_f = None, mtime = None, hash = None\<rparr>"

text \<open>What \<^verbatim>\<open>os.walk\<close> enumerates below a directory: the names of its files and its
  subdirectories, in the order of the listing.\<close>

datatype dtree = Dir (dfiles: "string list") (dsubs: "(string \<times> dtree) list")

text \<open>An entry of the destination directory as \<^verbatim>\<open>cleanup_old_backups\<close> sees it: its
  name, \<^verbatim>\<open>is_dir()\<close>, \<^verbatim>\<open>stat().st_mtime\<close> (\<open>None\<close> when \<^verbatim>\<open>stat\<close> raises) and whether
  deleting it succeeds.\<close>

record dentry =
  dname :: string
  d_is_dir :: bool
  d_mtime :: "rat option"
  d_del_ok :: bool

text \<open>What \<^verbatim>\<open>cleanup_old_backups\<close> finds at the destination: no such directory,
  an \<^verbatim>\<open>OSError\<close> from \<^verbatim>\<open>exists()\<close> or \<^verbatim>\<open>iterdir()\<close>, or the entries.\<close>

datatype listing = NoDir | Unreadable | Entries "dentry list"

text \<open>
  The environment of one run. \<open>src_exists\<close> is \<^verbatim>\<open>source_path.exists()\<close>, which
  re-raises a \<^verbatim>\<open>PermissionError\<close> (\<open>None\<close>); \<open>src_tree\<close> is what
  \<^verbatim>\<open>os.walk\<close> yields below a path (\<open>None\<close>: nothing, the path is no directory or
  cannot be listed); \<open>fstat\<close> and \<open>fdata\<close> are the size and modification time and
  the content of a file (\<open>None\<close>: the call raises); \<open>copy2_ok src dst\<close> tells whether
  \<^verbatim>\<open>shutil.copy2(src, dst)\<close> returns; \<open>dir_present\<close> and \<open>mkdir_ok\<close> tell
  whether a directory is already there and whether it can be made.
\<close>

record env =
  timestamp :: string
  expand_home :: "string \<Rightarrow> string option"
  src_exists :: "string \<Rightarrow> bool option"
  src_tree :: "string \<Rightarrow> dtree option"
  fstat :: "string \<Rightarrow> (nat \<times> rat) option"
  fdata :: "string \<Rightarrow> string option"
  copy2_ok :: "string \<Rightarrow> string \<Rightarrow> bool"
  dir_present :: "string \<Rightarrow> bool"
  mkdir_ok :: "string \<Rightarrow> bool"
  tar_ok :: "string \<Rightarrow> bool"
  rmtree_ok :: "string \<Rightarrow> bool"
  dest_listing :: "string \<Rightarrow> listing"
  save_ok :: bool

subsection \<open>Path filter\<close>

text \<open>\<^verbatim>\<open>should_exclude\<close>: \<^verbatim>\<open>pattern in path_str\<close> is the contiguous-substring test.\<close>

definition should_exclude :: "path \<Rightarrow> string list option \<Rightarrow> bool" where
  "should_exclude p patterns =
     (case patterns of
        None \<Rightarrow> False
      | Some pats \<Rightarrow>
          if pats = [] then False
          else list_ex (\<lambda>pattern. sublist pattern (str_path p)) pats)"

subsection \<open>Change detector\<close>

text \<open>\<^verbatim>\<open>calculate_file_hash\<close>: the digest of the content, the empty string when the file
  cannot be opened or read.\<close>

definition calculate_file_hash :: "(string \<Rightarrow> string) \<Rightarrow> env \<Rightarrow> string \<Rightarrow> string" where
  "calculate_file_hash md5 e filepath =
     (case fdata e filepath of
        None \<Rightarrow> []
      | Some bytes \<Rightarrow> md5 bytes)"

text \<open>\<^verbatim>\<open>get_file_info\<close>: the empty dictionary when \<^verbatim>\<open>stat\<close> raises.\<close>

definition get_file_info :: "(string \<Rightarrow> string) \<Rightarrow> env \<Rightarrow> string \<Rightarrow> file_info" where
  "get_file_info md5 e filepath =
     (case fstat e filepath of
        None \<Rightarrow> empty_info
      | Some (sz, mt) \<Rightarrow>
          \<lparr>size_f = Some sz, mtime = Some mt,
           hash = Some (calculate_file_hash md5 e filepath)\<rparr>)"

type_synonym index = "string \<rightharpoonup> (string \<rightharpoonup> file_info)"

text \<open>\<^verbatim>\<open>self.backup_index.get(config_name, {})\<close>.\<close>

definition config_index :: "index \<Rightarrow> string \<Rightarrow> (string \<rightharpoonup> file_info)" where
  "config_index idx config_name =
     (case idx config_name of None \<Rightarrow> Map.empty | Some m \<Rightarrow> m)"

definition should_backup_file ::
  "(string \<Rightarrow> string) \<Rightarrow> env \<Rightarrow> index \<Rightarrow> path \<Rightarrow> string \<Rightarrow> bool" where
  "should_backup_file md5 e idx filepath config_name =
     (let file_key = str_path filepath in
      case config_index idx config_name file_key of
        None \<Rightarrow> True
      | Some stored_info \<Rightarrow>
          let current_info = get_file_info md5 e file_key
          in hash current_info \<noteq> hash stored_info \<or> mtime current_info \<noteq> mtime stored_info)"

subsection \<open>State, log, effects and exceptions\<close>

text \<open>
  The log entries, one constructor for each message of the program (the text of a caught
  exception, which the messages append, is left out).
\<close>

datatype log_entry =
    ConfigNotFound string
  | BackupStart string string
  | SourceMissing string
  | SourceDir string
  | CopyError string
  | Compressing string
  | Compressed string
  | CompressError
  | Removed string
  | RemoveError string
  | BackupDone nat nat



text \<open>A deletion made by the retention step: \<^verbatim>\<open>shutil.rmtree\<close> or \<^verbatim>\<open>unlink\<close>.\<close>

datatype removal = Rmtree string | Unlink string

text \<open>The exceptions that leave \<^verbatim>\<open>create_backup\<close> uncaught.\<close>

datatype error =
    HomeError string
  | ExistsError string
  | ValueError string
  | MkdirError string
  | ListError string
  | StatError string
  | SaveError

text \<open>
  The object (\<open>configs\<close>, \<open>backup_index\<close>, \<open>logger\<close>), the two counters of a run, and
  what the run did to the file system: \<open>copies\<close> lists the successful
  \<^verbatim>\<open>shutil.copy2(src, dst)\<close> calls in order, \<open>removed\<close> the deletions of the retention step.
\<close>

record state =
  configs :: "string \<rightharpoonup> BackupConfig"
  backup_index :: index
  files_backed_up :: nat
  total_size :: nat
  copies :: "(string \<times> string) list"
  removed :: "removal list"
  logger :: "log_entry list"

datatype result = Done state | Raised error state

fun state_of :: "result \<Rightarrow> state" where
  "state_of (Done s) = s"
| "state_of (Raised err s) = s"

fun raised :: "result \<Rightarrow> bool" where
  "raised (Done s) = False"
| "raised (Raised err s) = True"

definition log_add :: "log_entry \<Rightarrow> state \<Rightarrow> state" where
  "log_add entry s = s\<lparr>logger := logger s @ [entry]\<rparr>"

text \<open>A \<^verbatim>\<open>for\<close> loop whose body may raise: the exception ends the loop.\<close>

fun for_each :: "('a \<Rightarrow> state \<Rightarrow> result) \<Rightarrow> 'a list \<Rightarrow> state \<Rightarrow> result" where
  "for_each body [] s = Done s"
| "for_each body (x # xs) s =
     (case body x s of
        Done s' \<Rightarrow> for_each body xs s'
      | Raised err s' \<Rightarrow> Raised err s')"

subsection \<open>File system operations\<close>

text \<open>\<^verbatim>\<open>p.mkdir(parents=True, exist_ok=True)\<close> returns normally when the directory is
  already there, or when it can be created.\<close>

definition mkdir_exist_ok :: "env \<Rightarrow> path \<Rightarrow> bool" where
  "mkdir_exist_ok e p \<longleftrightarrow> dir_present e (str_path p) \<or> mkdir_ok e (str_path p)"

text \<open>\<^verbatim>\<open>p.expanduser()\<close>: only a relative path whose first part starts with a tilde is
  changed; \<open>None\<close> is the \<^verbatim>\<open>RuntimeError\<close> of an unknown home directory.\<close>

definition expanduser :: "env \<Rightarrow> path \<Rightarrow> path option" where
  "expanduser e p =
     (if anchor p = [] \<and> parts p \<noteq> [] \<and> take 1 (hd (parts p)) = ''~''
      then (case expand_home e (hd (parts p)) of
              None \<Rightarrow> None
            | Some homedir \<Rightarrow> Some (pjoin_path (Path_of homedir) (Path [] (tl (parts p)))))
      else Some p)"

text \<open>\<^verbatim>\<open>os.walk(top)\<close>, top-down: the directory itself, then each subdirectory in turn.
  The caller reads the root and the file names of each triple.\<close>

fun walk :: "path \<Rightarrow> dtree \<Rightarrow> (path \<times> string list) list" where
  "walk p (Dir fs ds) = (p, fs) # concat (map (\<lambda>x. walk (child p (fst x)) (snd x)) ds)"

definition os_walk :: "env \<Rightarrow> path \<Rightarrow> (path \<times> string list) list" where
  "os_walk e p = (case src_tree e (str_path p) of None \<Rightarrow> [] | Some t \<Rightarrow> walk p t)"

text \<open>\<^verbatim>\<open>xs[n:]\<close> for a Python integer \<open>n\<close>: a negative \<open>n\<close> counts from the end.\<close>

definition py_slice_from :: "'a list \<Rightarrow> int \<Rightarrow> 'a list" where
  "py_slice_from xs n =
     (if 0 \<le> n then drop (nat n) xs else drop (nat (int (length xs) + n)) xs)"

subsection \<open>Snapshot builder\<close>

text \<open>\<^verbatim>\<open>dest_path / source_path.name / rel_path\<close>, where a copy is written.\<close>

definition dest_file :: "path \<Rightarrow> path \<Rightarrow> path \<Rightarrow> path" where
  "dest_file dest_path source_path rel_path =
     pjoin_path (pjoin dest_path (pname source_path)) rel_path"

text \<open>The body of the innermost loop of \<^verbatim>\<open>create_backup\<close>, for one file name of one
  directory of the walk.\<close>

definition backup_file ::
  "(string \<Rightarrow> string) \<Rightarrow> env \<Rightarrow> BackupConfig \<Rightarrow> string \<Rightarrow> path \<Rightarrow> path \<Rightarrow> path \<Rightarrow> string
     \<Rightarrow> state \<Rightarrow> result" where
  "backup_file md5 e config config_name dest_path source_path root_path file s =
     (let filepath = child root_path file in
      if should_exclude filepath (exclude_patterns config) then Done s
      else if incremental config \<and>
              \<not> should_backup_file md5 e (backup_index s) filepath config_name then Done s
      else
        case relative_to filepath source_path of
          None \<Rightarrow> Raised (ValueError (str_path filepath)) s
        | Some rel_path \<Rightarrow>
            let dest_file_path = dest_file dest_path source_path rel_path in
            if \<not> mkdir_exist_ok e (parent dest_file_path)
            then Raised (MkdirError (str_path (parent dest_file_path))) s
            else if \<not> copy2_ok e (str_path filepath) (str_path dest_file_path)
            then Done (log_add (CopyError (str_path filepath)) s)
            else
              let s1 = s\<lparr>copies := copies s @ [(str_path filepath, str_path dest_file_path)],
                         files_backed_up := files_backed_up s + 1\<rparr>
              in (case fstat e (str_path filepath) of
                    None \<Rightarrow> Done (log_add (CopyError (str_path filepath)) s1)
                  | Some st \<Rightarrow>
                      Done (s1\<lparr>total_size := total_size s1 + fst st,
                               backup_index := (backup_index s1)(config_name \<mapsto>
                                 (config_index (backup_index s1) config_name)
                                   (str_path filepath \<mapsto>
                                      get_file_info md5 e (str_path filepath)))\<rparr>)))"

text \<open>The body of the loop over the walk: an excluded directory is skipped with
  \<^verbatim>\<open>continue\<close>; the walk itself goes on into its subdirectories.\<close>

definition backup_dir ::
  "(string \<Rightarrow> string) \<Rightarrow> env \<Rightarrow> BackupConfig \<Rightarrow> string \<Rightarrow> path \<Rightarrow> path
     \<Rightarrow> path \<times> string list \<Rightarrow> state \<Rightarrow> result" where
  "backup_dir md5 e config config_name dest_path source_path entry s =
     (let root_path = fst entry; files = snd entry in
      if should_exclude root_path (exclude_patterns config) then Done s
      else for_each (backup_file md5 e config config_name dest_path source_path root_path)
             files s)"

text \<open>The body of the loop over \<^verbatim>\<open>config.source_dirs\<close>.\<close>

definition backup_source ::
  "(string \<Rightarrow> string) \<Rightarrow> env \<Rightarrow> BackupConfig \<Rightarrow> string \<Rightarrow> path \<Rightarrow> string
     \<Rightarrow> state \<Rightarrow> result" where
  "backup_source md5 e config config_name dest_path source_dir s =
     (case expanduser e (Path_of source_dir) of
        None \<Rightarrow> Raised (HomeError source_dir) s
      | Some source_path \<Rightarrow>
          (case src_exists e (str_path source_path) of
             None \<Rightarrow> Raised (ExistsError (str_path source_path)) s
           | Some False \<Rightarrow> Done (log_add (SourceMissing (str_path source_path)) s)
           | Some True \<Rightarrow>
               for_each (backup_dir md5 e config config_name dest_path source_path)
                 (os_walk e source_path)
                 (log_add (SourceDir (str_path source_path)) s)))"

subsection \<open>Archiver\<close>

text \<open>\<^verbatim>\<open>compress_backup\<close>: every exception of the block (the \<^verbatim>\<open>ValueError\<close> of
  \<^verbatim>\<open>with_suffix\<close>, a failing \<^verbatim>\<open>tar\<close>, a failing \<^verbatim>\<open>rmtree\<close>) is caught and logged.\<close>

definition compress_backup :: "env \<Rightarrow> path \<Rightarrow> state \<Rightarrow> state" where
  "compress_backup e backup_path s =
     (let s1 = log_add (Compressing (str_path backup_path)) s in
      case with_suffix backup_path ''.tar.gz'' of
        None \<Rightarrow> log_add CompressError s1
      | Some archive_path \<Rightarrow>
          if tar_ok e (str_path backup_path) \<and> rmtree_ok e (str_path backup_path)
          then log_add (Compressed (str_path archive_path)) s1
          else log_add CompressError s1)"

subsection \<open>Retention manager\<close>

text \<open>The entries that \<^verbatim>\<open>cleanup_old_backups\<close> collects, and their order after
  \<^verbatim>\<open>backups.sort(key=..., reverse=True)\<close>: descending by modification time, entries
  with equal times in the order of the listing (the sort is stable).\<close>

definition backups_of :: "string \<Rightarrow> dentry list \<Rightarrow> dentry list" where
  "backups_of config_name items = filter (\<lambda>item. prefix (config_name @ ''_'') (dname item)) items"

definition sort_backups :: "dentry list \<Rightarrow> dentry list" where
  "sort_backups backups = sort_key (\<lambda>x. - the (d_mtime x)) backups"

text \<open>The body of the deletion loop: a failing deletion is logged, and the loop goes on.\<close>

definition delete_backup :: "path \<Rightarrow> dentry \<Rightarrow> state \<Rightarrow> state" where
  "delete_backup dest_dir backup s =
     (let p = str_path (child dest_dir (dname backup)) in
      if d_del_ok backup
      then log_add (Removed p)
             (s\<lparr>removed := removed s @ [if d_is_dir backup then Rmtree p else Unlink p]\<rparr>)
      else log_add (RemoveError p) s)"

definition cleanup_old_backups :: "env \<Rightarrow> BackupConfig \<Rightarrow> state \<Rightarrow> result" where
  "cleanup_old_backups e config s =
     (let dest_dir = Path_of (destination config) in
      case dest_listing e (str_path dest_dir) of
        NoDir \<Rightarrow> Done s
      | Unreadable \<Rightarrow> Raised (ListError (str_path dest_dir)) s
      | Entries items \<Rightarrow>
          let backups = backups_of (name config) items in
          (case find (\<lambda>item. d_mtime item = None) backups of
             Some item \<Rightarrow> Raised (StatError (str_path (child dest_dir (dname item)))) s
           | None \<Rightarrow>
               let backups = sort_backups backups in
               if int (length backups) > max_backups config
               then Done (fold (delete_backup dest_dir)
                            (py_slice_from backups (max_backups config)) s)
               else Done s))"

subsection \<open>A backup run\<close>

text \<open>\<^verbatim>\<open>create_backup\<close>: the returned boolean, or the exception that ended the run, and
  the state it leaves. The counters and the lists of effects start empty in every run.\<close>

definition snapshot_path :: "env \<Rightarrow> BackupConfig \<Rightarrow> string \<Rightarrow> path" where
  "snapshot_path e config config_name =
     pjoin (Path_of (destination config)) (config_name @ ''_'' @ timestamp e)"

text \<open>The start of a run, after the snapshot directory is made: the first log line, and
  an empty index for a backup set that has none.\<close>

definition begin_run :: "string \<Rightarrow> path \<Rightarrow> state \<Rightarrow> state" where
  "begin_run config_name dest_path s =
     (let s1 = log_add (BackupStart config_name (str_path dest_path)) s in
      if backup_index s1 config_name = None
      then s1\<lparr>backup_index := (backup_index s1)(config_name \<mapsto> Map.empty)\<rparr>
      else s1)"

definition create_backup ::
  "(string \<Rightarrow> string) \<Rightarrow> env \<Rightarrow> string \<Rightarrow> state \<Rightarrow> (error + bool) \<times> state" where
  "create_backup md5 e config_name s0 =
     (let s = s0\<lparr>files_backed_up := 0, total_size := 0, copies := [], removed := []\<rparr> in
      case configs s config_name of
        None \<Rightarrow> (Inr False, log_add (ConfigNotFound config_name) s)
      | Some config \<Rightarrow>
          let dest_path = snapshot_path e config config_name in
          if \<not> mkdir_exist_ok e dest_path then (Inl (MkdirError (str_path dest_path)), s)
          else
            (case for_each (backup_source md5 e config config_name dest_path)
                    (source_dirs config) (begin_run config_name dest_path s) of
               Raised err s3 \<Rightarrow> (Inl err, s3)
             | Done s3 \<Rightarrow>
                 let s4 = (if compression config then compress_backup e dest_path s3 else s3)
                 in (case cleanup_old_backups e config s4 of
                       Raised err s5 \<Rightarrow> (Inl err, s5)
                     | Done s5 \<Rightarrow>
                         if \<not> save_ok e then (Inl SaveError, s5)
                         else (Inr True,
                               log_add (BackupDone (files_backed_up s5) (total_size s5)) s5))))"

subsection \<open>The files a run reaches\<close>

text \<open>
  The paths that the three nested loops of \<^verbatim>\<open>create_backup\<close> hand to the change
  detector: for each source directory that exists, each directory of its walk that is not
  excluded, each of its files that is not excluded.
\<close>

definition dir_visits :: "BackupConfig \<Rightarrow> path \<times> string list \<Rightarrow> path list" where
  "dir_visits config entry =
     (if should_exclude (fst entry) (exclude_patterns config) then []
      else filter (\<lambda>f. \<not> should_exclude f (exclude_patterns config))
             (map (child (fst entry)) (snd entry)))"

definition source_visits :: "env \<Rightarrow> BackupConfig \<Rightarrow> string \<Rightarrow> path list" where
  "source_visits e config source_dir =
     (case expanduser e (Path_of source_dir) of
        None \<Rightarrow> []
      | Some source_path \<Rightarrow>
          if src_exists e (str_path source_path) = Some True
          then concat (map (dir_visits config) (os_walk e source_path))
          else [])"

definition visited :: "env \<Rightarrow> BackupConfig \<Rightarrow> path list" where
  "visited e config = concat (map (source_visits e config) (source_dirs config))"


subsection \<open>Example data\<close>

text \<open>An environment in which no file exists and every operation succeeds, the base of
  the concrete runs below.\<close>

definition env0 :: env where
  "env0 = \<lparr>timestamp = ''20240101_120000'',
            expand_home = (\<lambda>u. Some ''/home/u''),
            src_exists = (\<lambda>p. Some False),
            src_tree = (\<lambda>p. None),
            fstat = (\<lambda>p. None),
            fdata = (\<lambda>p. None),
            copy2_ok = (\<lambda>p d. True),
            dir_present = (\<lambda>p. False),
            mkdir_ok = (\<lambda>p. True),
            tar_ok = (\<lambda>p. True),
            rmtree_ok = (\<lambda>p. True),
            dest_listing = (\<lambda>p. NoDir),
            save_ok = True\<rparr>"

text \<open>A stand-in digest for the concrete runs: a non-empty string that depends on the
  content.\<close>

definition md5_ex :: "string \<Rightarrow> string" where
  "md5_ex bytes = ''h'' @ bytes"

text \<open>A fresh object, and a backup set \<^verbatim>\<open>docs\<close> over one source tree.\<close>

definition st_empty :: state where
  "st_empty = \<lparr>configs = Map.empty, backup_index = Map.empty, files_backed_up = 0,
      total_size = 0, copies = [], removed = [], logger = []\<rparr>"

definition cfg_docs :: BackupConfig where
  "cfg_docs = \<lparr>name = ''docs'', source_dirs = [''/home/u/docs''], destination = ''/bk'',
      schedule = ''0 2 * * *'', compression = False, incremental = True,
      exclude_patterns = Some [''cache''], max_backups = 3\<rparr>"

definition tree_docs :: dtree where
  "tree_docs = Dir [''a.txt'', ''b.txt''] [(''cache'', Dir [''c.tmp''] [(''deep'', Dir [''d.txt''] [])])]"

definition env_docs :: env where
  "env_docs = env0\<lparr>src_exists := (\<lambda>p. Some (p = ''/home/u/docs'')),
      src_tree := (\<lambda>p. if p = ''/home/u/docs'' then Some tree_docs else None),
      fstat := (\<lambda>p. Some (length p, 5)),
      fdata := (\<lambda>p. Some p)\<rparr>"

definition st_docs :: state where
  "st_docs = st_empty\<lparr>configs := [''docs'' \<mapsto> cfg_docs]\<rparr>"

text \<open>A backup set over the current directory, written \<^verbatim>\<open>.\<close>, that excludes every
  path with a dot.\<close>

definition cfg_dot :: BackupConfig where
  "cfg_dot = \<lparr>name = ''here'', source_dirs = [''.''], destination = ''/bk'', schedule = ''0 2 * * *'',
     compression = False, incremental = True, exclude_patterns = Some [''.''], max_backups = 10\<rparr>"

definition env_dot :: env where
  "env_dot = env0\<lparr>src_exists := (\<lambda>p. Some (p = ''.'')),
      src_tree := (\<lambda>p. if p = ''.'' then Some (Dir [''top''] [(''sub'', Dir [''f''] [])]) else None),
      fstat := (\<lambda>p. Some (1, 5)), fdata := (\<lambda>p. Some ''x'')\<rparr>"

text \<open>A backup set whose pattern list holds the empty string.\<close>

definition cfg_all :: BackupConfig where
  "cfg_all = cfg_docs\<lparr>exclude_patterns := Some [''cache'', '''']\<rparr>"

text \<open>An object whose index still holds the record of a file that is no longer in the
  source tree.\<close>

definition st_old :: state where
  "st_old = st_docs\<lparr>backup_index :=
     [''docs'' \<mapsto> [''/home/u/docs/gone.txt'' \<mapsto>
        \<lparr>size_f = Some 1, mtime = Some 2, hash = Some ''hz''\<rparr>]]\<rparr>"

text \<open>A destination with five snapshots of \<^verbatim>\<open>docs\<close>, the newest one a directory, and a
  snapshot of another backup set, \<^verbatim>\<open>docs_extra\<close>, older than all of them.\<close>

definition items_bk :: "dentry list" where
  "items_bk =
     [\<lparr>dname = ''docs_20240101_120000'', d_is_dir = True, d_mtime = Some 50, d_del_ok = True\<rparr>,
      \<lparr>dname = ''docs_20231201_120000.tar.gz'', d_is_dir = False, d_mtime = Some 10, d_del_ok = True\<rparr>,
      \<lparr>dname = ''docs_20231215_120000.tar.gz'', d_is_dir = False, d_mtime = Some 30, d_del_ok = True\<rparr>,
      \<lparr>dname = ''docs_extra_20231101_120000'', d_is_dir = True, d_mtime = Some 5, d_del_ok = True\<rparr>,
      \<lparr>dname = ''docs_20231210_120000.tar.gz'', d_is_dir = False, d_mtime = Some 20, d_del_ok = True\<rparr>,
      \<lparr>dname = ''docs_20231220_120000.tar.gz'', d_is_dir = False, d_mtime = Some 40, d_del_ok = True\<rparr>,
      \<lparr>dname = ''notes.txt'', d_is_dir = False, d_mtime = Some 1, d_del_ok = True\<rparr>]"

definition env_bk :: env where
  "env_bk = env_docs\<lparr>dest_listing := (\<lambda>p. if p = ''/bk'' then Entries items_bk else NoDir)\<rparr>"






text \<open>The source tree of \<^verbatim>\<open>docs\<close> again, every file readable and every copy
  succeeding; the directory for the copies of \<^verbatim>\<open>cache\<close> cannot be made at the
  destination, and nothing is excluded.\<close>

definition cfg_plain :: BackupConfig where
  "cfg_plain = cfg_docs\<lparr>exclude_patterns := None\<rparr>"

definition env_nodir :: env where
  "env_nodir = env_docs\<lparr>mkdir_ok := (\<lambda>p. p \<noteq> ''/bk/docs_20240101_120000/docs/cache'')\<rparr>"







section \<open>Change detection\<close>

lemma get_file_info_hash:
  "hash (get_file_info md5 e k) =
     map_option (\<lambda>_. calculate_file_hash md5 e k) (fstat e k)"
  by (simp add: get_file_info_def empty_info_def split: option.splits prod.splits)

lemma get_file_info_mtime:
  "mtime (get_file_info md5 e k) = map_option snd (fstat e k)"
  by (simp add: get_file_info_def empty_info_def split: option.splits prod.splits)

text \<open>
  Claim C1. In incremental mode the change detector answers ``copy'' exactly when the
  path has no entry in the index of the backup set, or the fingerprint computed now
  differs from the stored one, or the modification time read now differs from the stored
  one. The stored and the current size play no part: when fingerprint and modification
  time agree with the stored record, the answer is ``no copy'' whatever the sizes are.
\<close>

theorem should_backup_file_iff:
  "(should_backup_file md5 e idx filepath config_name \<longleftrightarrow>
      config_index idx config_name (str_path filepath) = None \<or>
      (\<exists>stored. config_index idx config_name (str_path filepath) = Some stored \<and>
         (map_option (\<lambda>_. calculate_file_hash md5 e (str_path filepath))
            (fstat e (str_path filepath)) \<noteq> hash stored \<or>
          map_option snd (fstat e (str_path filepath)) \<noteq> mtime stored))) \<and>
   (\<forall>stored sz mt.
      config_index idx config_name (str_path filepath) = Some stored \<and>
      fstat e (str_path filepath) = Some (sz, mt) \<and>
      hash stored = Some (calculate_file_hash md5 e (str_path filepath)) \<and>
      mtime stored = Some mt \<and> size_f stored \<noteq> Some sz \<longrightarrow>
      \<not> should_backup_file md5 e idx filepath config_name)"
  by (auto simp: should_backup_file_def Let_def get_file_info_hash get_file_info_mtime
      split: option.splits)

theorem should_backup_file_iff_witness:
  "config_index [''docs'' \<mapsto> [''/a/f'' \<mapsto> \<lparr>size_f = Some 3, mtime = Some 7, hash = Some ''hxy''\<rparr>]]
      ''docs'' (str_path (Path ''/'' [''a'', ''f'']))
     = Some \<lparr>size_f = Some 3, mtime = Some 7, hash = Some ''hxy''\<rparr> \<and>
   fstat (env0\<lparr>fstat := (\<lambda>p. Some (2, 7)), fdata := (\<lambda>p. Some ''xy'')\<rparr>)
      (str_path (Path ''/'' [''a'', ''f''])) = Some (2, 7) \<and>
   \<not> should_backup_file md5_ex
      (env0\<lparr>fstat := (\<lambda>p. Some (2, 7)), fdata := (\<lambda>p. Some ''xy'')\<rparr>)
      [''docs'' \<mapsto> [''/a/f'' \<mapsto> \<lparr>size_f = Some 3, mtime = Some 7, hash = Some ''hxy''\<rparr>]]
      (Path ''/'' [''a'', ''f'']) ''docs''"
  using should_backup_file_iff [of md5_ex
      "env0\<lparr>fstat := (\<lambda>p. Some (2, 7)), fdata := (\<lambda>p. Some ''xy'')\<rparr>"
      "[''docs'' \<mapsto> [''/a/f'' \<mapsto> \<lparr>size_f = Some 3, mtime = Some 7, hash = Some ''hxy''\<rparr>]]"
      "Path ''/'' [''a'', ''f'']" "''docs''"]
  by (simp add: config_index_def str_path_def calculate_file_hash_def md5_ex_def env0_def)

section \<open>Loops and invariants of a run\<close>

lemma state_of_log_add [simp]:
  "copies (log_add x s) = copies s" "backup_index (log_add x s) = backup_index s"
  "files_backed_up (log_add x s) = files_backed_up s" "total_size (log_add x s) = total_size s"
  "removed (log_add x s) = removed s" "configs (log_add x s) = configs s"
  "logger (log_add x s) = logger s @ [x]"
  by (simp_all add: log_add_def)

lemma for_each_inv:
  assumes "P s" and "\<And>x s. x \<in> set xs \<Longrightarrow> P s \<Longrightarrow> P (state_of (body x s))"
  shows "P (state_of (for_each body xs s))"
  using assms
proof (induction xs arbitrary: s)
  case Nil
  then show ?case by simp
next
  case (Cons x xs)
  have step: "P (state_of (body x s))" using Cons.prems by simp
  show ?case
  proof (cases "body x s")
    case (Done s')
    with step have "P s'" by simp
    then have "P (state_of (for_each body xs s'))"
      using Cons.IH Cons.prems(2) by simp
    with Done show ?thesis by simp
  next
    case (Raised err s')
    with step show ?thesis by simp
  qed
qed

lemma for_each_no_raise:
  assumes "\<And>x s. x \<in> set xs \<Longrightarrow> \<not> raised (body x s)"
  shows "\<not> raised (for_each body xs s)"
  using assms
proof (induction xs arbitrary: s)
  case Nil
  then show ?case by simp
next
  case (Cons x xs)
  have nx: "\<not> raised (body x s)" using Cons.prems by simp
  then obtain s' where b: "body x s = Done s'" by (cases "body x s") auto
  have "\<not> raised (for_each body xs s')" using Cons.IH Cons.prems by simp
  with b show ?case by simp
qed

lemma for_each_all:
  assumes nr: "\<not> raised (for_each body xs s)" and "P s"
    and inv: "\<And>x s. x \<in> set xs \<Longrightarrow> P s \<Longrightarrow> P (state_of (body x s))"
    and est: "\<And>x s. x \<in> set xs \<Longrightarrow> P s \<Longrightarrow> \<not> raised (body x s) \<Longrightarrow> Q x (state_of (body x s))"
    and pres: "\<And>x y s. y \<in> set xs \<Longrightarrow> P s \<Longrightarrow> Q x s \<Longrightarrow> Q x (state_of (body y s))"
  shows "\<forall>x\<in>set xs. Q x (state_of (for_each body xs s))"
  using assms
proof (induction xs arbitrary: s)
  case Nil
  then show ?case by simp
next
  case (Cons x xs)
  from Cons.prems(1) obtain s' where b: "body x s = Done s'"
    by (cases "body x s") auto
  from b Cons.prems(1) have nr': "\<not> raised (for_each body xs s')" by simp
  have "P (state_of (body x s))" using Cons.prems(2,3) by simp
  with b have Ps': "P s'" by simp
  have "\<not> raised (body x s)" using b by simp
  then have "Q x (state_of (body x s))" using Cons.prems(2,4) by simp
  with b have Qx: "Q x s'" by simp
  have rest: "\<forall>y\<in>set xs. Q y (state_of (for_each body xs s'))"
    by (rule Cons.IH[OF nr' Ps']) (use Cons.prems in auto)
  have "P (state_of (for_each body xs s')) \<and> Q x (state_of (for_each body xs s'))"
    by (rule for_each_inv[where P="\<lambda>s. P s \<and> Q x s"]) (use Ps' Qx Cons.prems(3,5) in auto)
  with rest b show ?case by simp
qed

lemma backup_file_excluded:
  "should_exclude (child root_path fname) (exclude_patterns config) \<Longrightarrow>
   backup_file md5 e config cn dest source_path root_path fname s = Done s"
  by (simp add: backup_file_def)

lemma backup_dir_inv:
  assumes "P s"
    and "\<And>fname s. fname \<in> set (snd entry) \<Longrightarrow> \<not> should_exclude (fst entry) (exclude_patterns config) \<Longrightarrow>
           \<not> should_exclude (child (fst entry) fname) (exclude_patterns config) \<Longrightarrow> P s \<Longrightarrow>
           P (state_of (backup_file md5 e config cn dest source_path (fst entry) fname s))"
  shows "P (state_of (backup_dir md5 e config cn dest source_path entry s))"
proof (cases "should_exclude (fst entry) (exclude_patterns config)")
  case True
  then show ?thesis using assms(1) by (simp add: backup_dir_def)
next
  case False
  have "P (state_of (for_each (backup_file md5 e config cn dest source_path (fst entry)) (snd entry) s))"
  proof (rule for_each_inv[where P=P])
    show "P s" by (rule assms(1))
  next
    fix fname s
    assume f: "fname \<in> set (snd entry)" and P: "P s"
    show "P (state_of (backup_file md5 e config cn dest source_path (fst entry) fname s))"
    proof (cases "should_exclude (child (fst entry) fname) (exclude_patterns config)")
      case True
      then show ?thesis using P by (simp add: backup_file_excluded)
    next
      case False
      then show ?thesis using assms(2) f P \<open>\<not> should_exclude (fst entry) (exclude_patterns config)\<close> by simp
    qed
  qed
  with False show ?thesis by (simp add: backup_dir_def)
qed

lemma backup_source_inv:
  assumes "P s"
    and log: "\<And>entry s. P s \<Longrightarrow> P (log_add entry s)"
    and fstep: "\<And>source_path entry fname s.
           expanduser e (Path_of source_dir) = Some source_path \<Longrightarrow>
           src_exists e (str_path source_path) = Some True \<Longrightarrow>
           entry \<in> set (os_walk e source_path) \<Longrightarrow>
           fname \<in> set (snd entry) \<Longrightarrow> \<not> should_exclude (fst entry) (exclude_patterns config) \<Longrightarrow>
           \<not> should_exclude (child (fst entry) fname) (exclude_patterns config) \<Longrightarrow> P s \<Longrightarrow>
           P (state_of (backup_file md5 e config cn dest source_path (fst entry) fname s))"
  shows "P (state_of (backup_source md5 e config cn dest source_dir s))"
proof (cases "expanduser e (Path_of source_dir)")
  case None
  then show ?thesis using assms(1) by (simp add: backup_source_def)
next
  case (Some source_path)
  show ?thesis
  proof (cases "src_exists e (str_path source_path) = Some True")
    case False
    then show ?thesis using Some assms(1) log
      by (auto simp: backup_source_def split: option.splits bool.splits)
  next
    case True
    have "P (state_of (for_each (backup_dir md5 e config cn dest source_path)
             (os_walk e source_path) (log_add (SourceDir (str_path source_path)) s)))"
    proof (rule for_each_inv)
      show "P (log_add (SourceDir (str_path source_path)) s)" using assms(1) log by simp
    next
      fix entry s
      assume en: "entry \<in> set (os_walk e source_path)" and P: "P s"
      show "P (state_of (backup_dir md5 e config cn dest source_path entry s))"
      proof (rule backup_dir_inv[where P=P])
        show "P s" by (rule P)
      qed (use fstep Some True en in blast)
    qed
    with Some True show ?thesis by (simp add: backup_source_def)
  qed
qed

lemma in_visited:
  assumes "source_dir \<in> set (source_dirs config)"
    and "expanduser e (Path_of source_dir) = Some source_path"
    and "src_exists e (str_path source_path) = Some True"
    and "entry \<in> set (os_walk e source_path)"
    and "fname \<in> set (snd entry)"
    and "\<not> should_exclude (fst entry) (exclude_patterns config)"
    and "\<not> should_exclude (child (fst entry) fname) (exclude_patterns config)"
  shows "child (fst entry) fname \<in> set (visited e config)"
proof -
  have "child (fst entry) fname \<in> set (dir_visits config entry)"
    using assms(5,6,7) by (simp add: dir_visits_def)
  then have "child (fst entry) fname \<in> set (source_visits e config source_dir)"
    using assms(2,3,4) by (auto simp: source_visits_def)
  then show ?thesis using assms(1) by (auto simp: visited_def)
qed

lemma walk_extends:
  "entry \<in> set (walk p t) \<Longrightarrow> anchor (fst entry) = anchor p \<and> prefix (parts p) (parts (fst entry))"
proof (induction p t arbitrary: entry rule: walk.induct)
  case (1 p fs ds)
  from "1.prems" consider "entry = (p, fs)"
    | x where "x \<in> set ds" "entry \<in> set (walk (child p (fst x)) (snd x))"
    by auto
  then show ?case
  proof cases
    case 1
    then show ?thesis by simp
  next
    case 2
    from "1.IH"[OF 2(1) 2(2)] show ?thesis
      by (auto simp: child_def dest: append_prefixD)
  qed
qed

lemma os_walk_relative:
  "entry \<in> set (os_walk e source_path) \<Longrightarrow>
   relative_to (child (fst entry) fname) source_path \<noteq> None"
  by (auto simp: os_walk_def relative_to_def child_def split: option.splits
      dest!: walk_extends)

lemma backup_sources_inv:
  assumes "P s"
    and log: "\<And>entry s. P s \<Longrightarrow> P (log_add entry s)"
    and fstep: "\<And>source_path root_path fname s. P s \<Longrightarrow>
           child root_path fname \<in> set (visited e config) \<Longrightarrow>
           relative_to (child root_path fname) source_path \<noteq> None \<Longrightarrow>
           P (state_of (backup_file md5 e config cn dest source_path root_path fname s))"
  shows "P (state_of (for_each (backup_source md5 e config cn dest) (source_dirs config) s))"
proof (rule for_each_inv[where P=P])
  show "P s" by (rule assms(1))
next
  fix source_dir s
  assume sd: "source_dir \<in> set (source_dirs config)" and P: "P s"
  show "P (state_of (backup_source md5 e config cn dest source_dir s))"
  proof (rule backup_source_inv[where P=P])
    show "P s" by (rule P)
  next
    fix entry s assume "P s" then show "P (log_add entry s)" by (rule log)
  next
    fix source_path entry fname s
    assume "expanduser e (Path_of source_dir) = Some source_path"
      "src_exists e (str_path source_path) = Some True" "entry \<in> set (os_walk e source_path)"
      "fname \<in> set (snd entry)" "\<not> should_exclude (fst entry) (exclude_patterns config)"
      "\<not> should_exclude (child (fst entry) fname) (exclude_patterns config)" "P s"
    then show "P (state_of (backup_file md5 e config cn dest source_path (fst entry) fname s))"
      using fstep in_visited[OF sd] os_walk_relative by blast
  qed
qed

lemma should_exclude_iff:
  "should_exclude p pats \<longleftrightarrow> (\<exists>ps pat. pats = Some ps \<and> pat \<in> set ps \<and> sublist pat (str_path p))"
  by (auto simp: should_exclude_def list_ex_iff split: option.splits)

lemma visited_not_excluded:
  "f \<in> set (visited e config) \<Longrightarrow> \<not> should_exclude f (exclude_patterns config)"
  by (auto simp: visited_def source_visits_def dir_visits_def split: option.splits if_splits)

lemma backup_file_cases:
  fixes md5 e config cn dest source_path root_path fname s
  defines "k \<equiv> str_path (child root_path fname)"
  defines "r \<equiv> backup_file md5 e config cn dest source_path root_path fname s"
  obtains
    (skip) "r = Done s"
      "should_exclude (child root_path fname) (exclude_patterns config) \<or>
       (incremental config \<and> \<not> should_backup_file md5 e (backup_index s) (child root_path fname) cn)"
  | (raise) err where "r = Raised err s"
      "\<not> should_exclude (child root_path fname) (exclude_patterns config)"
      "(err = ValueError k \<and> relative_to (child root_path fname) source_path = None) \<or>
       (\<exists>rel. relative_to (child root_path fname) source_path = Some rel \<and>
          err = MkdirError (str_path (parent (dest_file dest source_path rel))) \<and>
          \<not> mkdir_exist_ok e (parent (dest_file dest source_path rel)))"
  | (fail) rel where "r = Done (log_add (CopyError k) s)"
      "relative_to (child root_path fname) source_path = Some rel"
      "\<not> copy2_ok e k (str_path (dest_file dest source_path rel))"
      "\<not> should_exclude (child root_path fname) (exclude_patterns config)"
      "\<not> incremental config \<or> should_backup_file md5 e (backup_index s) (child root_path fname) cn"
  | (nostat) rel where
      "r = Done (log_add (CopyError k)
             (s\<lparr>copies := copies s @ [(k, str_path (dest_file dest source_path rel))],
                files_backed_up := files_backed_up s + 1\<rparr>))"
      "relative_to (child root_path fname) source_path = Some rel"
      "copy2_ok e k (str_path (dest_file dest source_path rel))" "fstat e k = None"
      "\<not> should_exclude (child root_path fname) (exclude_patterns config)"
      "\<not> incremental config \<or> should_backup_file md5 e (backup_index s) (child root_path fname) cn"
  | (copied) rel st where
      "r = Done (s\<lparr>copies := copies s @ [(k, str_path (dest_file dest source_path rel))],
                    files_backed_up := files_backed_up s + 1,
                    total_size := total_size s + fst st,
                    backup_index := (backup_index s)(cn \<mapsto>
                       (config_index (backup_index s) cn)(k \<mapsto> get_file_info md5 e k))\<rparr>)"
      "relative_to (child root_path fname) source_path = Some rel"
      "copy2_ok e k (str_path (dest_file dest source_path rel))" "fstat e k = Some st"
      "\<not> should_exclude (child root_path fname) (exclude_patterns config)"
      "\<not> incremental config \<or> should_backup_file md5 e (backup_index s) (child root_path fname) cn"
proof -
  let ?f = "child root_path fname"
  let ?ex = "should_exclude ?f (exclude_patterns config)"
  let ?inc = "incremental config \<and> \<not> should_backup_file md5 e (backup_index s) ?f cn"
  show thesis
  proof (cases "?ex \<or> ?inc")
    case True
    then have "r = Done s" unfolding r_def backup_file_def Let_def by auto
    then show thesis using True skip by blast
  next
    case False
    then have nex: "\<not> ?ex" and ninc: "\<not> ?inc" by auto
    show thesis
    proof (cases "relative_to ?f source_path")
      case None
      then have "r = Raised (ValueError k) s"
        using nex ninc unfolding r_def backup_file_def Let_def k_def by auto
      then show thesis using raise nex None by blast
    next
      case (Some rel)
      let ?d = "dest_file dest source_path rel"
      show thesis
      proof (cases "mkdir_exist_ok e (parent ?d)")
        case False
        then have "r = Raised (MkdirError (str_path (parent ?d))) s"
          using nex ninc Some unfolding r_def backup_file_def Let_def k_def by auto
        then show thesis using raise nex False Some by blast
      next
        case mk: True
        show thesis
        proof (cases "copy2_ok e k (str_path ?d)")
          case False
          then have "r = Done (log_add (CopyError k) s)"
            using nex ninc Some mk unfolding r_def backup_file_def Let_def k_def by auto
          then show thesis using fail nex ninc False Some by blast
        next
          case cp: True
          show thesis
          proof (cases "fstat e k")
            case None
            then have "r = Done (log_add (CopyError k)
                (s\<lparr>copies := copies s @ [(k, str_path ?d)],
                   files_backed_up := files_backed_up s + 1\<rparr>))"
              using nex ninc Some mk cp unfolding r_def backup_file_def Let_def k_def by auto
            then show thesis using nostat nex ninc cp None Some by blast
          next
            case st: (Some st)
            then have "r = Done (s\<lparr>copies := copies s @ [(k, str_path ?d)],
                    files_backed_up := files_backed_up s + 1,
                    total_size := total_size s + fst st,
                    backup_index := (backup_index s)(cn \<mapsto>
                       (config_index (backup_index s) cn)(k \<mapsto> get_file_info md5 e k))\<rparr>)"
              using nex ninc Some mk cp unfolding r_def backup_file_def Let_def k_def by auto
            then show thesis using copied nex ninc cp st Some by blast
          qed
        qed
      qed
    qed
  qed
qed

lemma fold_inv:
  assumes "P s" and "\<And>x s. x \<in> set xs \<Longrightarrow> P s \<Longrightarrow> P (f x s)"
  shows "P (fold f xs s)"
  using assms by (induction xs arbitrary: s) auto

lemma delete_backup_inv:
  assumes "P s" and log: "\<And>entry s. P s \<Longrightarrow> P (log_add entry s)"
    and del: "\<And>s x. P s \<Longrightarrow> P (s\<lparr>removed := removed s @ [x]\<rparr>)"
  shows "P (delete_backup dest_dir b s)"
  using assms by (simp add: delete_backup_def Let_def)

lemma cleanup_old_backups_inv:
  assumes "P s" and log: "\<And>entry s. P s \<Longrightarrow> P (log_add entry s)"
    and del: "\<And>s x. P s \<Longrightarrow> P (s\<lparr>removed := removed s @ [x]\<rparr>)"
  shows "P (state_of (cleanup_old_backups e config s))"
proof -
  have "P (fold (delete_backup d) xs s)" for d xs
    by (rule fold_inv[where P=P]) (use assms delete_backup_inv[where P=P] in auto)
  then show ?thesis using assms(1)
    by (auto simp: cleanup_old_backups_def Let_def split: listing.splits option.splits)
qed

lemma compress_backup_inv:
  assumes "P s" and log: "\<And>entry s. P s \<Longrightarrow> P (log_add entry s)"
  shows "P (compress_backup e p s)"
  using assms by (auto simp: compress_backup_def Let_def split: option.splits)

lemma begin_run_inv:
  assumes "P s" and log: "\<And>entry s. P s \<Longrightarrow> P (log_add entry s)"
    and idx: "\<And>s. P s \<Longrightarrow> backup_index s cn = None \<Longrightarrow>
           P (s\<lparr>backup_index := (backup_index s)(cn \<mapsto> Map.empty)\<rparr>)"
  shows "P (begin_run cn dest s)"
proof -
  let ?s1 = "log_add (BackupStart cn (str_path dest)) s"
  have P1: "P ?s1" using assms(1) log by simp
  show ?thesis
  proof (cases "backup_index ?s1 cn = None")
    case True
    then have "begin_run cn dest s = ?s1\<lparr>backup_index := (backup_index ?s1)(cn \<mapsto> Map.empty)\<rparr>"
      unfolding begin_run_def Let_def by (simp only: if_True refl)
    then show ?thesis using idx[OF P1 True] by simp
  next
    case False
    then have "begin_run cn dest s = ?s1"
      unfolding begin_run_def Let_def by (simp only: if_False refl)
    then show ?thesis using P1 by simp
  qed
qed

lemma create_backup_inv:
  assumes P0: "P (s0\<lparr>files_backed_up := 0, total_size := 0, copies := [], removed := []\<rparr>)"
    and log: "\<And>entry s. P s \<Longrightarrow> P (log_add entry s)"
    and idx: "\<And>s. P s \<Longrightarrow> backup_index s cn = None \<Longrightarrow>
           P (s\<lparr>backup_index := (backup_index s)(cn \<mapsto> Map.empty)\<rparr>)"
    and del: "\<And>s x. P s \<Longrightarrow> P (s\<lparr>removed := removed s @ [x]\<rparr>)"
    and fstep: "\<And>config source_path root_path fname s.
           configs s0 cn = Some config \<Longrightarrow> P s \<Longrightarrow>
           child root_path fname \<in> set (visited e config) \<Longrightarrow>
           relative_to (child root_path fname) source_path \<noteq> None \<Longrightarrow>
           P (state_of (backup_file md5 e config cn (snapshot_path e config cn)
                source_path root_path fname s))"
  shows "P (snd (create_backup md5 e cn s0))"
proof (cases "configs s0 cn")
  case None
  then show ?thesis using P0 log by (simp add: create_backup_def)
next
  case (Some config)
  let ?s = "s0\<lparr>files_backed_up := 0, total_size := 0, copies := [], removed := []\<rparr>"
  let ?d = "snapshot_path e config cn"
  show ?thesis
  proof (cases "mkdir_exist_ok e ?d")
    case False
    then show ?thesis using Some P0 by (simp add: create_backup_def)
  next
    case True
    let ?r = "for_each (backup_source md5 e config cn ?d) (source_dirs config) (begin_run cn ?d ?s)"
    have Pb: "P (begin_run cn ?d ?s)"
      by (rule begin_run_inv[where P=P]) (use P0 log idx in auto)
    have P3: "P (state_of ?r)"
      by (rule backup_sources_inv[where P=P]) (use Pb log fstep Some in auto)
    show ?thesis
    proof (cases ?r)
      case (Raised err s3)
      then show ?thesis using Some True P3 by (simp add: create_backup_def)
    next
      case (Done s3)
      let ?s4 = "if compression config then compress_backup e ?d s3 else s3"
      have P4: "P ?s4" using P3 Done compress_backup_inv[where P=P] log by auto
      have P5: "P (state_of (cleanup_old_backups e config ?s4))"
        by (rule cleanup_old_backups_inv[where P=P]) (use P4 log del in auto)
      show ?thesis
        using Some True Done P5 log
        by (cases "cleanup_old_backups e config ?s4")
           (auto simp: create_backup_def Let_def)
    qed
  qed
qed

lemma run_count:
  "files_backed_up (snd (create_backup md5 e cn s0)) = length (copies (snd (create_backup md5 e cn s0))) \<and>
   (\<forall>x\<in>set (copies (snd (create_backup md5 e cn s0))). copy2_ok e (fst x) (snd x))"
proof (rule create_backup_inv[where P="\<lambda>s. files_backed_up s = length (copies s) \<and>
   (\<forall>x\<in>set (copies s). copy2_ok e (fst x) (snd x))"], goal_cases)
  case (5 config source_path root_path fname s)
  show ?case
    by (rule backup_file_cases[of md5 e config cn "snapshot_path e config cn" source_path root_path fname s])
       (use 5 in auto)
qed auto

lemma run_not_excluded:
  assumes "configs s0 cn = Some config"
  shows "\<forall>x\<in>set (copies (snd (create_backup md5 e cn s0))).
           \<forall>ps pat. exclude_patterns config = Some ps \<longrightarrow> pat \<in> set ps \<longrightarrow> \<not> sublist pat (fst x)"
proof (rule create_backup_inv[where P="\<lambda>s. \<forall>x\<in>set (copies s).
           \<forall>ps pat. exclude_patterns config = Some ps \<longrightarrow> pat \<in> set ps \<longrightarrow> \<not> sublist pat (fst x)"], goal_cases)
  case (5 config' source_path root_path fname s)
  then have [simp]: "config' = config" using assms by simp
  show ?case
    by (rule backup_file_cases[of md5 e config cn "snapshot_path e config cn" source_path root_path fname s])
       (use 5 in \<open>auto simp: should_exclude_iff\<close>)
qed auto

lemma join_parts_append:
  "join_parts (xs @ ys) =
     (if xs = [] then join_parts ys else if ys = [] then join_parts xs
      else join_parts xs @ ''/'' @ join_parts ys)"
proof (induction xs rule: join_parts.induct)
  case (2 x)
  then show ?case by (cases ys) auto
qed auto

lemma str_path_extends:
  assumes "str_path d \<noteq> ''.''" "anchor q = anchor d" "prefix (parts d) (parts q)"
  shows "prefix (str_path d) (str_path q)"
proof -
  from assms(3) obtain more where more: "parts q = parts d @ more" by (auto simp: prefix_def)
  from assms(1) have ne: "\<not> (anchor d = [] \<and> parts d = [])" by (auto simp: str_path_def)
  then have "str_path d = anchor d @ join_parts (parts d)" by (simp add: str_path_def)
  moreover have "str_path q = anchor d @ join_parts (parts d @ more)"
    using ne assms(2) more by (auto simp: str_path_def)
  ultimately show ?thesis
    by (auto simp: join_parts_append)
qed

lemma should_exclude_extends:
  assumes "should_exclude d pats" "str_path d \<noteq> ''.''" "anchor q = anchor d" "prefix (parts d) (parts q)"
  shows "should_exclude q pats"
proof -
  from assms(1) obtain ps pat where p: "pats = Some ps" "pat \<in> set ps" "sublist pat (str_path d)"
    by (auto simp: should_exclude_iff)
  have "sublist (str_path d) (str_path q)"
    using str_path_extends[OF assms(2,3,4)] by (rule prefix_imp_sublist)
  with p(3) have "sublist pat (str_path q)" by (rule sublist_order.order.trans)
  with p show ?thesis by (auto simp: should_exclude_iff)
qed

section \<open>Exclusion\<close>

text \<open>
  Claim C4, as the code has it. Let a directory's textual path match an exclude pattern and
  not be the bare \<^verbatim>\<open>.\<close>. Then every directory beneath it that the walk yields matches
  too and is skipped, every file beneath it matches, and no file beneath it is copied, however
  large the subtree. The walk is not pruned: it still yields the directories beneath, and
  each is skipped because its own path contains the path of the excluded directory.
\<close>

theorem excluded_directory_subtree:
  assumes "configs s0 cn = Some config"
    and "should_exclude d (exclude_patterns config)"
    and "str_path d \<noteq> ''.''"
    and "entry \<in> set (walk d t)" and "fname \<in> set (snd entry)"
  shows "should_exclude (fst entry) (exclude_patterns config) \<and>
         should_exclude (child (fst entry) fname) (exclude_patterns config) \<and>
         str_path (child (fst entry) fname) \<notin> fst ` set (copies (snd (create_backup md5 e cn s0)))"
proof -
  from walk_extends[OF assms(4)]
  have ext: "anchor (fst entry) = anchor d" "prefix (parts d) (parts (fst entry))" by auto
  have 1: "should_exclude (fst entry) (exclude_patterns config)"
    by (rule should_exclude_extends[OF assms(2,3) ext])
  have "prefix (parts d) (parts (child (fst entry) fname))"
    using ext(2) by (auto simp: child_def prefix_def)
  then have 2: "should_exclude (child (fst entry) fname) (exclude_patterns config)"
    using should_exclude_extends[OF assms(2,3)] ext(1) by (simp add: child_def)
  have 3: "str_path (child (fst entry) fname) \<notin> fst ` set (copies (snd (create_backup md5 e cn s0)))"
    using run_not_excluded[OF assms(1), of md5 e] 2 by (fastforce simp: should_exclude_iff)
  from 1 2 3 show ?thesis by simp
qed

theorem excluded_directory_subtree_witness:
  "configs st_docs ''docs'' = Some cfg_docs \<and>
   should_exclude (Path ''/'' [''home'', ''u'', ''docs'', ''cache'']) (exclude_patterns cfg_docs) \<and>
   str_path (Path ''/'' [''home'', ''u'', ''docs'', ''cache'']) \<noteq> ''.'' \<and>
   (Path ''/'' [''home'', ''u'', ''docs'', ''cache'', ''deep''], [''d.txt''])
      \<in> set (walk (Path ''/'' [''home'', ''u'', ''docs'', ''cache'']) (Dir [''c.tmp''] [(''deep'', Dir [''d.txt''] [])])) \<and>
   ''/home/u/docs/cache/deep/d.txt'' \<notin> fst ` set (copies (snd (create_backup md5_ex env_docs ''docs'' st_docs)))"
proof -
  have h1: "configs st_docs ''docs'' = Some cfg_docs" by (simp add: st_docs_def st_empty_def)
  have h2: "should_exclude (Path ''/'' [''home'', ''u'', ''docs'', ''cache'']) (exclude_patterns cfg_docs)"
    by code_simp
  have h3: "str_path (Path ''/'' [''home'', ''u'', ''docs'', ''cache'']) \<noteq> ''.''" by code_simp
  have h4: "(Path ''/'' [''home'', ''u'', ''docs'', ''cache'', ''deep''], [''d.txt''])
      \<in> set (walk (Path ''/'' [''home'', ''u'', ''docs'', ''cache'']) (Dir [''c.tmp''] [(''deep'', Dir [''d.txt''] [])]))"
    by (simp add: child_def)
  have h5: "''d.txt'' \<in> set (snd (Path ''/'' [''home'', ''u'', ''docs'', ''cache'', ''deep''], [''d.txt'']))" by simp
  have e: "str_path (child (fst (Path ''/'' [''home'', ''u'', ''docs'', ''cache'', ''deep''], [''d.txt''])) ''d.txt'') = ''/home/u/docs/cache/deep/d.txt''"
    by code_simp
  from excluded_directory_subtree[OF h1 h2 h3 h4 h5, of md5_ex env_docs] h1 h2 h3 h4 e
  show ?thesis by simp
qed

text \<open>
  The source directory \<^verbatim>\<open>.\<close> with the pattern \<^verbatim>\<open>.\<close>: the root matches and its own
  files are skipped, but \<^verbatim>\<open>Path('./sub')\<close> prints as \<^verbatim>\<open>sub\<close>, which does not contain
  the pattern, so the file beneath the excluded root is copied.
\<close>

theorem excluded_directory_subtree_counterexample:
  "should_exclude (Path_of ''.'') (exclude_patterns cfg_dot) \<and>
   os_walk env_dot (Path_of ''.'') = [(Path [] [], [''top'']), (Path [] [''sub''], [''f''])] \<and>
   copies (snd (create_backup md5_ex env_dot ''here'' (st_empty\<lparr>configs := [''here'' \<mapsto> cfg_dot]\<rparr>)))
     = [(str_path (child (Path [] [''sub'']) ''f''), ''/bk/here_20240101_120000/sub/f'')]"
  by code_simp

section \<open>What holds for every file a run reaches\<close>

lemma raised_backup_dir:
  "\<not> should_exclude (fst entry) (exclude_patterns config) \<Longrightarrow>
   backup_dir md5 e config cn dest sp entry s =
     for_each (backup_file md5 e config cn dest sp (fst entry)) (snd entry) s"
  by (simp add: backup_dir_def)

lemma backup_dir_all:
  assumes nr: "\<not> raised (backup_dir md5 e config cn dest sp entry s)" and P: "P s"
    and inv: "\<And>root fname s. P s \<Longrightarrow> P (state_of (backup_file md5 e config cn dest sp root fname s))"
    and est: "\<And>root fname s. P s \<Longrightarrow> \<not> should_exclude (child root fname) (exclude_patterns config) \<Longrightarrow>
           \<not> raised (backup_file md5 e config cn dest sp root fname s) \<Longrightarrow>
           Q (child root fname) (state_of (backup_file md5 e config cn dest sp root fname s))"
    and pres: "\<And>f root fname s. P s \<Longrightarrow> Q f s \<Longrightarrow>
           Q f (state_of (backup_file md5 e config cn dest sp root fname s))"
  shows "\<forall>f\<in>set (dir_visits config entry). Q f (state_of (backup_dir md5 e config cn dest sp entry s))"
proof (cases "should_exclude (fst entry) (exclude_patterns config)")
  case True
  then show ?thesis by (simp add: dir_visits_def)
next
  case False
  let ?body = "backup_file md5 e config cn dest sp (fst entry)"
  let ?Q3 = "\<lambda>fname s. \<not> should_exclude (child (fst entry) fname) (exclude_patterns config)
               \<longrightarrow> Q (child (fst entry) fname) s"
  have nr': "\<not> raised (for_each ?body (snd entry) s)"
    using nr False by (simp add: raised_backup_dir)
  have "\<forall>fname\<in>set (snd entry). ?Q3 fname (state_of (for_each ?body (snd entry) s))"
  proof (rule for_each_all[where P=P and Q="?Q3", OF nr' P])
    fix x s assume "P s" then show "P (state_of (?body x s))" by (rule inv)
  next
    fix x s assume "P s" "\<not> raised (?body x s)"
    then show "?Q3 x (state_of (?body x s))" using est by blast
  next
    fix x y s assume "P s" "?Q3 x s"
    then show "?Q3 x (state_of (?body y s))" using pres by blast
  qed
  then show ?thesis using False by (auto simp: dir_visits_def raised_backup_dir)
qed

lemma backup_source_all:
  assumes nr: "\<not> raised (backup_source md5 e config cn dest source_dir s)" and P: "P s"
    and log: "\<And>entry s. P s \<Longrightarrow> P (log_add entry s)"
    and inv: "\<And>sp root fname s. P s \<Longrightarrow> P (state_of (backup_file md5 e config cn dest sp root fname s))"
    and est: "\<And>sp root fname s. P s \<Longrightarrow> \<not> should_exclude (child root fname) (exclude_patterns config) \<Longrightarrow>
           \<not> raised (backup_file md5 e config cn dest sp root fname s) \<Longrightarrow>
           Q (child root fname) (state_of (backup_file md5 e config cn dest sp root fname s))"
    and pres: "\<And>f sp root fname s. P s \<Longrightarrow> Q f s \<Longrightarrow>
           Q f (state_of (backup_file md5 e config cn dest sp root fname s))"
  shows "\<forall>f\<in>set (source_visits e config source_dir).
           Q f (state_of (backup_source md5 e config cn dest source_dir s))"
proof (cases "expanduser e (Path_of source_dir)")
  case None
  then show ?thesis by (simp add: source_visits_def)
next
  case (Some sp)
  show ?thesis
  proof (cases "src_exists e (str_path sp) = Some True")
    case False
    then show ?thesis using Some by (simp add: source_visits_def)
  next
    case True
    let ?body = "backup_dir md5 e config cn dest sp"
    let ?s1 = "log_add (SourceDir (str_path sp)) s"
    let ?Q2 = "\<lambda>entry s. \<forall>f\<in>set (dir_visits config entry). Q f s"
    have eq: "backup_source md5 e config cn dest source_dir s = for_each ?body (os_walk e sp) ?s1"
      using Some True by (simp add: backup_source_def)
    have nr': "\<not> raised (for_each ?body (os_walk e sp) ?s1)" using nr eq by simp
    have P1: "P ?s1" using P log by simp
    have "\<forall>entry\<in>set (os_walk e sp). ?Q2 entry (state_of (for_each ?body (os_walk e sp) ?s1))"
    proof (rule for_each_all[where P=P and Q="?Q2", OF nr' P1])
      fix x s assume "P s"
      then show "P (state_of (?body x s))"
        using backup_dir_inv[where P=P] inv by blast
    next
      fix x s assume Ps: "P s" and nrx: "\<not> raised (?body x s)"
      show "?Q2 x (state_of (?body x s))"
        by (rule backup_dir_all[where P=P and Q=Q, OF nrx Ps])
           (erule inv, (erule est; assumption), (erule pres; assumption))
    next
      fix x y s assume Ps: "P s" and Qx: "?Q2 x s"
      show "?Q2 x (state_of (?body y s))"
      proof
        fix f assume "f \<in> set (dir_visits config x)"
        with Qx have "P s \<and> Q f s" using Ps by simp
        then have "P (state_of (?body y s)) \<and> Q f (state_of (?body y s))"
          by (rule backup_dir_inv[where P="\<lambda>s. P s \<and> Q f s"])
             (use inv pres in auto)
        then show "Q f (state_of (?body y s))" by simp
      qed
    qed
    then show ?thesis using Some True eq by (auto simp: source_visits_def)
  qed
qed

lemma backup_sources_all:
  assumes nr: "\<not> raised (for_each (backup_source md5 e config cn dest) (source_dirs config) s)"
    and P: "P s"
    and log: "\<And>entry s. P s \<Longrightarrow> P (log_add entry s)"
    and qlog: "\<And>f entry s. Q f s \<Longrightarrow> Q f (log_add entry s)"
    and inv: "\<And>sp root fname s. P s \<Longrightarrow> P (state_of (backup_file md5 e config cn dest sp root fname s))"
    and est: "\<And>sp root fname s. P s \<Longrightarrow> \<not> should_exclude (child root fname) (exclude_patterns config) \<Longrightarrow>
           \<not> raised (backup_file md5 e config cn dest sp root fname s) \<Longrightarrow>
           Q (child root fname) (state_of (backup_file md5 e config cn dest sp root fname s))"
    and pres: "\<And>f sp root fname s. P s \<Longrightarrow> Q f s \<Longrightarrow>
           Q f (state_of (backup_file md5 e config cn dest sp root fname s))"
  shows "\<forall>f\<in>set (visited e config).
           Q f (state_of (for_each (backup_source md5 e config cn dest) (source_dirs config) s))"
proof -
  let ?body = "backup_source md5 e config cn dest"
  let ?Q1 = "\<lambda>sd s. \<forall>f\<in>set (source_visits e config sd). Q f s"
  have "\<forall>sd\<in>set (source_dirs config). ?Q1 sd (state_of (for_each ?body (source_dirs config) s))"
  proof (rule for_each_all[where P=P and Q="?Q1", OF nr P])
    fix x s assume "P s"
    then show "P (state_of (?body x s))"
      using backup_source_inv[where P=P] log inv by blast
  next
    fix x s assume Ps: "P s" and nrx: "\<not> raised (?body x s)"
    show "?Q1 x (state_of (?body x s))"
      by (rule backup_source_all[where P=P and Q=Q, OF nrx Ps])
         (erule log, erule inv, (erule est; assumption), (erule pres; assumption))
  next
    fix x y s assume Ps: "P s" and Qx: "?Q1 x s"
    show "?Q1 x (state_of (?body y s))"
    proof
      fix f assume "f \<in> set (source_visits e config x)"
      with Qx have "P s \<and> Q f s" using Ps by simp
      then have "P (state_of (?body y s)) \<and> Q f (state_of (?body y s))"
        by (rule backup_source_inv[where P="\<lambda>s. P s \<and> Q f s"])
           (use log qlog inv pres in auto)
      then show "Q f (state_of (?body y s))" by simp
    qed
  qed
  then show ?thesis by (auto simp: visited_def)
qed

lemma backup_file_no_raise:
  assumes "relative_to (child root_path fname) sp \<noteq> None" "\<forall>d. mkdir_exist_ok e d"
  shows "\<not> raised (backup_file md5 e config cn dest sp root_path fname s)"
  by (rule backup_file_cases[of md5 e config cn dest sp root_path fname s])
     (use assms in auto)

lemma backup_source_no_raise:
  assumes "\<forall>d. mkdir_exist_ok e d" "\<forall>u. expand_home e u \<noteq> None"
    and "\<forall>p. src_exists e p \<noteq> None"
  shows "\<not> raised (backup_source md5 e config cn dest source_dir s)"
proof -
  obtain h where "expand_home e (hd (parts (Path_of source_dir))) = Some h"
    using assms(2) by blast
  then have "expanduser e (Path_of source_dir) \<noteq> None"
    by (simp add: expanduser_def)
  then obtain sp where sp: "expanduser e (Path_of source_dir) = Some sp" by auto
  have "\<not> raised (for_each (backup_dir md5 e config cn dest sp) (os_walk e sp) s')" for s'
  proof (rule for_each_no_raise)
    fix entry s
    assume en: "entry \<in> set (os_walk e sp)"
    have "\<not> raised (for_each (backup_file md5 e config cn dest sp (fst entry)) (snd entry) s)"
    proof (rule for_each_no_raise)
      fix x s
      show "\<not> raised (backup_file md5 e config cn dest sp (fst entry) x s)"
        by (rule backup_file_no_raise[OF os_walk_relative[OF en] assms(1)])
    qed
    then show "\<not> raised (backup_dir md5 e config cn dest sp entry s)"
      by (simp add: backup_dir_def Let_def)
  qed
  moreover have "src_exists e (str_path sp) \<noteq> None" using assms(3) by blast
  ultimately show ?thesis using sp
    by (auto simp: backup_source_def split: option.splits bool.splits)
qed

lemma create_backup_returned:
  assumes cfg: "configs s0 cn = Some config"
    and ret: "fst (create_backup md5 e cn s0) = Inr b"
  shows "\<exists>s3. for_each (backup_source md5 e config cn (snapshot_path e config cn))
                 (source_dirs config)
                 (begin_run cn (snapshot_path e config cn)
                    (s0\<lparr>files_backed_up := 0, total_size := 0, copies := [], removed := []\<rparr>))
               = Done s3 \<and> b \<and>
           copies (snd (create_backup md5 e cn s0)) = copies s3 \<and>
           backup_index (snd (create_backup md5 e cn s0)) = backup_index s3 \<and>
           files_backed_up (snd (create_backup md5 e cn s0)) = files_backed_up s3 \<and>
           set (logger s3) \<subseteq> set (logger (snd (create_backup md5 e cn s0)))"
proof -
  let ?s = "s0\<lparr>files_backed_up := 0, total_size := 0, copies := [], removed := []\<rparr>"
  let ?d = "snapshot_path e config cn"
  let ?r = "for_each (backup_source md5 e config cn ?d) (source_dirs config) (begin_run cn ?d ?s)"
  have mk: "mkdir_exist_ok e ?d"
  proof (rule ccontr)
    assume "\<not> mkdir_exist_ok e ?d"
    then have "fst (create_backup md5 e cn s0) = Inl (MkdirError (str_path ?d))"
      using cfg by (simp add: create_backup_def Let_def)
    with ret show False by simp
  qed
  obtain s3 where s3: "?r = Done s3"
    using ret cfg mk by (cases ?r) (auto simp: create_backup_def)
  let ?P = "\<lambda>s. copies s = copies s3 \<and> backup_index s = backup_index s3 \<and>
                files_backed_up s = files_backed_up s3 \<and> set (logger s3) \<subseteq> set (logger s)"
  let ?s4 = "if compression config then compress_backup e ?d s3 else s3"
  have P4: "?P ?s4" using compress_backup_inv[where P="?P" and s=s3] by auto
  have P5: "?P (state_of (cleanup_old_backups e config ?s4))"
    by (rule cleanup_old_backups_inv[where P="?P"]) (use P4 in auto)
  obtain s5 where s5: "cleanup_old_backups e config ?s4 = Done s5"
    using ret cfg mk s3 by (cases "cleanup_old_backups e config ?s4") (auto simp: create_backup_def Let_def)
  have sv: "save_ok e" using ret cfg mk s3 s5 by (auto simp: create_backup_def Let_def split: if_splits)
  have res: "create_backup md5 e cn s0 =
      (Inr True, log_add (BackupDone (files_backed_up s5) (total_size s5)) s5)"
    using cfg mk s3 s5 sv by (simp add: create_backup_def Let_def)
  from P5 s5 have "?P s5" by simp
  with res ret s3 show ?thesis by auto
qed

lemma create_backup_no_raise:
  assumes cfg: "configs s0 cn = Some config"
    and mk: "\<forall>d. mkdir_exist_ok e d"
    and ok: "\<forall>u. expand_home e u \<noteq> None" "\<forall>p. src_exists e p \<noteq> None"
      "\<forall>s. \<not> raised (cleanup_old_backups e config s)" "save_ok e"
  shows "fst (create_backup md5 e cn s0) = Inr True"
proof -
  let ?s = "s0\<lparr>files_backed_up := 0, total_size := 0, copies := [], removed := []\<rparr>"
  let ?d = "snapshot_path e config cn"
  let ?r = "for_each (backup_source md5 e config cn ?d) (source_dirs config) (begin_run cn ?d ?s)"
  have "\<not> raised ?r"
  proof (rule for_each_no_raise)
    fix x s
    show "\<not> raised (backup_source md5 e config cn ?d x s)"
      by (rule backup_source_no_raise[OF mk ok(1,2)])
  qed
  then obtain s3 where s3: "?r = Done s3" by (cases ?r) auto
  let ?s4 = "if compression config then compress_backup e ?d s3 else s3"
  have "\<not> raised (cleanup_old_backups e config ?s4)" using ok(3) by blast
  then obtain s5 where s5: "cleanup_old_backups e config ?s4 = Done s5"
    by (cases "cleanup_old_backups e config ?s4") auto
  show ?thesis using cfg mk s3 s5 ok(4) by (simp add: create_backup_def Let_def)
qed

lemma should_backup_file_cong:
  "config_index idx cn (str_path f) = config_index idx' cn (str_path f) \<Longrightarrow>
   should_backup_file md5 e idx f cn = should_backup_file md5 e idx' f cn"
  by (simp add: should_backup_file_def)

lemma config_index_upd:
  "config_index (idx(cn \<mapsto> m)) cn' = (if cn' = cn then m else config_index idx cn')"
  by (simp add: config_index_def)

lemma begin_run_fields [simp]:
  "config_index (backup_index (begin_run cn d s)) m = config_index (backup_index s) m"
  "copies (begin_run cn d s) = copies s"
  "files_backed_up (begin_run cn d s) = files_backed_up s"
  "removed (begin_run cn d s) = removed s"
  "configs (begin_run cn d s) = configs s"
  by (auto simp: begin_run_def Let_def config_index_def)

section \<open>The empty pattern\<close>

text \<open>
  Claim C9. When the list of exclude patterns of a backup set holds the empty string,
  every path is excluded, and a run of that backup set copies no file: the list of copies
  is empty and the counter \<open>files_backed_up\<close> is zero.
\<close>

theorem empty_pattern_excludes_all:
  assumes "configs s0 cn = Some config"
    and "exclude_patterns config = Some ps" and "[] \<in> set ps"
  shows "should_exclude p (exclude_patterns config) \<and>
         copies (snd (create_backup md5 e cn s0)) = [] \<and>
         files_backed_up (snd (create_backup md5 e cn s0)) = 0"
proof -
  have 1: "should_exclude p (exclude_patterns config)"
    using assms(2,3) by (auto simp: should_exclude_iff)
  have "x \<notin> set (copies (snd (create_backup md5 e cn s0)))" for x
    using run_not_excluded[OF assms(1), of md5 e] assms(2,3) by fastforce
  then have 2: "copies (snd (create_backup md5 e cn s0)) = []"
    by (cases "copies (snd (create_backup md5 e cn s0))") auto
  with run_count[of md5 e cn s0] have 3: "files_backed_up (snd (create_backup md5 e cn s0)) = 0"
    by simp
  from 1 2 3 show ?thesis by simp
qed

theorem empty_pattern_excludes_all_witness:
  "configs (st_empty\<lparr>configs := [''docs'' \<mapsto> cfg_all]\<rparr>) ''docs'' = Some cfg_all \<and>
   exclude_patterns cfg_all = Some [''cache'', ''''] \<and> [] \<in> set [''cache'', ''''] \<and>
   should_exclude (Path ''/'' [''home'', ''u'', ''docs'', ''a.txt'']) (exclude_patterns cfg_all) \<and>
   copies (snd (create_backup md5_ex env_docs ''docs'' (st_empty\<lparr>configs := [''docs'' \<mapsto> cfg_all]\<rparr>))) = [] \<and>
   files_backed_up (snd (create_backup md5_ex env_docs ''docs'' (st_empty\<lparr>configs := [''docs'' \<mapsto> cfg_all]\<rparr>))) = 0"
proof -
  have h1: "configs (st_empty\<lparr>configs := [''docs'' \<mapsto> cfg_all]\<rparr>) ''docs'' = Some cfg_all"
    by simp
  have h2: "exclude_patterns cfg_all = Some [''cache'', '''']" by (simp add: cfg_all_def)
  have h3: "[] \<in> set [''cache'', '''']" by simp
  from empty_pattern_excludes_all[OF h1 h2 h3, of "Path ''/'' [''home'', ''u'', ''docs'', ''a.txt'']" md5_ex env_docs]
    h1 h2 h3
  show ?thesis by simp
qed

section \<open>The index after a run\<close>

text \<open>
  Claim C10. A run removes no key from the change index: a backup set that had an index
  keeps one, and a path that had a record keeps one. The index of every other backup set is
  left as it was, and in the index of the backup set of the run the record of every path
  that was not copied in this run is left as it was (so the record of a file deleted from
  the source stays); only paths copied in this run get a new record.
\<close>

theorem index_only_grows:
  "(\<forall>m. backup_index s0 m \<noteq> None \<longrightarrow> backup_index (snd (create_backup md5 e cn s0)) m \<noteq> None) \<and>
   (\<forall>m k. config_index (backup_index s0) m k \<noteq> None \<longrightarrow>
      config_index (backup_index (snd (create_backup md5 e cn s0))) m k \<noteq> None) \<and>
   (\<forall>m. m \<noteq> cn \<longrightarrow> backup_index (snd (create_backup md5 e cn s0)) m = backup_index s0 m) \<and>
   (\<forall>k. k \<notin> fst ` set (copies (snd (create_backup md5 e cn s0))) \<longrightarrow>
      config_index (backup_index (snd (create_backup md5 e cn s0))) cn k
        = config_index (backup_index s0) cn k)"
proof (rule create_backup_inv[where P="\<lambda>s.
   (\<forall>m. backup_index s0 m \<noteq> None \<longrightarrow> backup_index s m \<noteq> None) \<and>
   (\<forall>m k. config_index (backup_index s0) m k \<noteq> None \<longrightarrow> config_index (backup_index s) m k \<noteq> None) \<and>
   (\<forall>m. m \<noteq> cn \<longrightarrow> backup_index s m = backup_index s0 m) \<and>
   (\<forall>k. k \<notin> fst ` set (copies s) \<longrightarrow>
      config_index (backup_index s) cn k = config_index (backup_index s0) cn k)"], goal_cases)
  case 1
  show ?case by simp
next
  case (2 entry s)
  then show ?case by simp
next
  case (3 s)
  then show ?case by (auto simp: config_index_def split: option.splits)
next
  case (4 s x)
  then show ?case by simp
next
  case (5 config source_path root_path fname s)
  show ?case
    by (rule backup_file_cases[of md5 e config cn "snapshot_path e config cn" source_path root_path fname s])
       (use 5 in \<open>auto simp: config_index_upd\<close>)
qed

theorem index_only_grows_witness:
  "backup_index st_old ''docs'' \<noteq> None \<and>
   config_index (backup_index st_old) ''docs'' ''/home/u/docs/gone.txt'' \<noteq> None \<and>
   ''/home/u/docs/gone.txt'' \<notin> fst ` set (copies (snd (create_backup md5_ex env_docs ''docs'' st_old))) \<and>
   backup_index (snd (create_backup md5_ex env_docs ''docs'' st_old)) ''docs'' \<noteq> None \<and>
   config_index (backup_index (snd (create_backup md5_ex env_docs ''docs'' st_old))) ''docs''
      ''/home/u/docs/gone.txt''
     = Some \<lparr>size_f = Some 1, mtime = Some 2, hash = Some ''hz''\<rparr>"
proof -
  have h1: "backup_index st_old ''docs'' \<noteq> None" by (simp add: st_old_def)
  have h2: "config_index (backup_index st_old) ''docs'' ''/home/u/docs/gone.txt''
      = Some \<lparr>size_f = Some 1, mtime = Some 2, hash = Some ''hz''\<rparr>"
    by (simp add: st_old_def config_index_def)
  have c: "copies (snd (create_backup md5_ex env_docs ''docs'' st_old))
      = [(''/home/u/docs/a.txt'', ''/bk/docs_20240101_120000/docs/a.txt''),
         (''/home/u/docs/b.txt'', ''/bk/docs_20240101_120000/docs/b.txt'')]"
    by code_simp
  have h3: "''/home/u/docs/gone.txt'' \<notin> fst ` set (copies (snd (create_backup md5_ex env_docs ''docs'' st_old)))"
    unfolding c by simp
  from index_only_grows[of st_old md5_ex env_docs "''docs''"] h1 h2 h3
  show ?thesis by simp
qed

section \<open>Retention\<close>

lemma fold_delete_backup_removed:
  assumes "\<forall>b\<in>set bs. d_del_ok b"
  shows "removed (fold (delete_backup dest_dir) bs s) =
         removed s @ map (\<lambda>b. if d_is_dir b then Rmtree (str_path (child dest_dir (dname b)))
                               else Unlink (str_path (child dest_dir (dname b)))) bs"
  using assms by (induction bs arbitrary: s) (auto simp: delete_backup_def Let_def)

lemma sorted_take_drop:
  assumes "sorted (map f xs)" "k \<in> set (take n xs)" "g \<in> set (drop n xs)"
  shows "f k \<le> f g"
proof -
  have "sorted (map f (take n xs) @ map f (drop n xs))"
    using assms(1) by (simp flip: map_append)
  then show ?thesis using assms(2,3) by (auto simp: sorted_append)
qed

lemma sort_backups_order:
  assumes "k \<in> set (take n (sort_backups bs))" "g \<in> set (drop n (sort_backups bs))"
  shows "the (d_mtime g) \<le> the (d_mtime k)"
proof -
  have "sorted (map (\<lambda>x. - the (d_mtime x)) (sort_backups bs))"
    by (simp add: sort_backups_def)
  from sorted_take_drop[OF this assms] show ?thesis by simp
qed

lemma mset_sort_backups [simp]: "mset (sort_backups bs) = mset bs"
  by (simp add: sort_backups_def)

lemma length_sort_backups [simp]: "length (sort_backups bs) = length bs"
  by (simp add: sort_backups_def)

lemma cleanup_old_backups_removed:
  assumes ls: "dest_listing e (str_path (Path_of (destination config))) = Entries items"
    and st: "\<forall>b\<in>set (backups_of (name config) items). d_mtime b \<noteq> None"
    and del: "\<forall>b\<in>set (backups_of (name config) items). d_del_ok b"
    and cap: "0 \<le> max_backups config"
      "int (length (backups_of (name config) items)) > max_backups config"
  shows "\<exists>s'. cleanup_old_backups e config s = Done s' \<and>
           removed s' = removed s @
             map (\<lambda>b. if d_is_dir b then Rmtree (str_path (child (Path_of (destination config)) (dname b)))
                       else Unlink (str_path (child (Path_of (destination config)) (dname b))))
               (drop (nat (max_backups config)) (sort_backups (backups_of (name config) items)))"
proof -
  let ?bs = "backups_of (name config) items"
  have f: "find (\<lambda>item. d_mtime item = None) ?bs = None"
    using st by (auto simp: find_None_iff)
  have d: "\<forall>b\<in>set (drop (nat (max_backups config)) (sort_backups ?bs)). d_del_ok b"
    using del by (metis in_set_dropD mset_sort_backups set_mset_mset)
  show ?thesis
    using ls f cap fold_delete_backup_removed[OF d]
    by (simp add: cleanup_old_backups_def Let_def py_slice_from_def)
qed

lemma create_backup_returned_removed:
  assumes cfg: "configs s0 cn = Some config"
    and ret: "fst (create_backup md5 e cn s0) = Inr b"
  shows "\<exists>s4 s5. removed s4 = [] \<and> cleanup_old_backups e config s4 = Done s5 \<and>
           removed (snd (create_backup md5 e cn s0)) = removed s5"
proof -
  let ?s = "s0\<lparr>files_backed_up := 0, total_size := 0, copies := [], removed := []\<rparr>"
  let ?d = "snapshot_path e config cn"
  let ?r = "for_each (backup_source md5 e config cn ?d) (source_dirs config) (begin_run cn ?d ?s)"
  have mk: "mkdir_exist_ok e ?d"
  proof (rule ccontr)
    assume "\<not> mkdir_exist_ok e ?d"
    then have "fst (create_backup md5 e cn s0) = Inl (MkdirError (str_path ?d))"
      using cfg by (simp add: create_backup_def Let_def)
    with ret show False by simp
  qed
  obtain s3 where s3: "?r = Done s3"
    using ret cfg mk by (cases ?r) (auto simp: create_backup_def)
  have "removed (state_of ?r) = []"
  proof (rule backup_sources_inv[where P="\<lambda>s. removed s = []"], goal_cases)
    case 1
    show ?case by simp
  next
    case (2 entry s)
    then show ?case by simp
  next
    case (3 sp root fname s)
    show ?case
      by (rule backup_file_cases[of md5 e config cn ?d sp root fname s]) (use 3 in auto)
  qed
  then have r3: "removed s3 = []" using s3 by simp
  let ?s4 = "if compression config then compress_backup e ?d s3 else s3"
  have r4: "removed ?s4 = []"
    using compress_backup_inv[where P="\<lambda>s. removed s = []" and s=s3] r3 by auto
  obtain s5 where s5: "cleanup_old_backups e config ?s4 = Done s5"
    using ret cfg mk s3 by (cases "cleanup_old_backups e config ?s4") (auto simp: create_backup_def Let_def)
  have sv: "save_ok e" using ret cfg mk s3 s5 by (auto simp: create_backup_def Let_def split: if_splits)
  have res: "create_backup md5 e cn s0 =
      (Inr True, log_add (BackupDone (files_backed_up s5) (total_size s5)) s5)"
    using cfg mk s3 s5 sv by (simp add: create_backup_def Let_def)
  show ?thesis using r4 s5 res by (intro exI[of _ ?s4] exI[of _ s5]) simp
qed

lemma cleanup_done_stat:
  assumes "cleanup_old_backups e config s = Done s'"
    and "dest_listing e (str_path (Path_of (destination config))) = Entries items"
  shows "\<forall>b\<in>set (backups_of (name config) items). d_mtime b \<noteq> None"
proof (rule ccontr)
  assume "\<not> (\<forall>b\<in>set (backups_of (name config) items). d_mtime b \<noteq> None)"
  then obtain item where "find (\<lambda>item. d_mtime item = None) (backups_of (name config) items) = Some item"
    by (cases "find (\<lambda>item. d_mtime item = None) (backups_of (name config) items)")
       (auto simp: find_None_iff)
  then show False using assms by (simp add: cleanup_old_backups_def Let_def)
qed

lemma run_removed:
  assumes cfg: "configs s0 cn = Some config"
    and ret: "fst (create_backup md5 e cn s0) = Inr b"
    and ls: "dest_listing e (str_path (Path_of (destination config))) = Entries items"
    and del: "\<forall>b\<in>set (backups_of (name config) items). d_del_ok b"
    and cap: "0 \<le> max_backups config"
      "int (length (backups_of (name config) items)) > max_backups config"
  shows "removed (snd (create_backup md5 e cn s0)) =
           map (\<lambda>b. if d_is_dir b
                     then Rmtree (str_path (child (Path_of (destination config)) (dname b)))
                     else Unlink (str_path (child (Path_of (destination config)) (dname b))))
             (drop (nat (max_backups config)) (sort_backups (backups_of (name config) items)))"
proof -
  from create_backup_returned_removed[OF cfg ret] obtain s4 s5 where
    r4: "removed s4 = []" and c: "cleanup_old_backups e config s4 = Done s5"
    and r5: "removed (snd (create_backup md5 e cn s0)) = removed s5" by blast
  have st: "\<forall>b\<in>set (backups_of (name config) items). d_mtime b \<noteq> None"
    by (rule cleanup_done_stat[OF c ls])
  from cleanup_old_backups_removed[OF ls st del cap, of s4] c r4 r5
  show ?thesis by simp
qed

lemma backups_of_overlap:
  assumes "prefix (x @ ''_'') y" "item \<in> set items" "prefix (y @ ''_'') (dname item)"
  shows "item \<in> set (backups_of x items)"
proof -
  have "prefix y (dname item)" using assms(3) by (auto simp: prefix_def)
  with assms(1) have "prefix (x @ ''_'') (dname item)" by (rule prefix_order.trans)
  with assms(2) show ?thesis by (simp add: backups_of_def)
qed

text \<open>
  Claim C3. Let a run of a backup set with a cap \<open>m \<ge> 0\<close> come to its end, let the
  destination hold more than \<open>m\<close> entries whose names start with the name of the set and an
  underscore, and let every deletion succeed. Order these entries as the code does, by
  falling modification time. Then the first \<open>m\<close> are kept and all others are deleted, a
  directory with \<^verbatim>\<open>rmtree\<close> and a file with \<^verbatim>\<open>unlink\<close>: the kept and the deleted entries
  together are the entries of the set, exactly \<open>m\<close> are kept, and no deleted entry was
  modified later than a kept one.
\<close>

theorem retention_cap:
  assumes cfg: "configs s0 cn = Some config"
    and ret: "fst (create_backup md5 e cn s0) = Inr b"
    and ls: "dest_listing e (str_path (Path_of (destination config))) = Entries items"
    and del: "\<forall>b\<in>set (backups_of (name config) items). d_del_ok b"
    and cap: "0 \<le> max_backups config"
      "int (length (backups_of (name config) items)) > max_backups config"
  defines "kept \<equiv> take (nat (max_backups config)) (sort_backups (backups_of (name config) items))"
    and "gone \<equiv> drop (nat (max_backups config)) (sort_backups (backups_of (name config) items))"
  shows "mset kept + mset gone = mset (backups_of (name config) items) \<and>
         length kept = nat (max_backups config) \<and>
         (\<forall>k\<in>set kept. \<forall>g\<in>set gone. the (d_mtime g) \<le> the (d_mtime k)) \<and>
         removed (snd (create_backup md5 e cn s0)) =
           map (\<lambda>b. if d_is_dir b
                     then Rmtree (str_path (child (Path_of (destination config)) (dname b)))
                     else Unlink (str_path (child (Path_of (destination config)) (dname b)))) gone"
proof -
  let ?bs = "backups_of (name config) items"
  from run_removed[OF cfg ret ls del cap]
  have 4: "removed (snd (create_backup md5 e cn s0)) =
           map (\<lambda>b. if d_is_dir b
                     then Rmtree (str_path (child (Path_of (destination config)) (dname b)))
                     else Unlink (str_path (child (Path_of (destination config)) (dname b)))) gone"
    by (simp add: gone_def)
  have "mset kept + mset gone = mset (kept @ gone)" by simp
  also have "kept @ gone = sort_backups ?bs" by (simp add: kept_def gone_def)
  finally have 1: "mset kept + mset gone = mset ?bs" by simp
  have 2: "length kept = nat (max_backups config)" using cap by (simp add: kept_def)
  have 3: "\<forall>k\<in>set kept. \<forall>g\<in>set gone. the (d_mtime g) \<le> the (d_mtime k)"
    unfolding kept_def gone_def using sort_backups_order by blast
  from 1 2 3 4 show ?thesis by blast
qed

theorem retention_cap_witness:
  "configs st_docs ''docs'' = Some cfg_docs \<and>
   fst (create_backup md5_ex env_bk ''docs'' st_docs) = Inr True \<and>
   dest_listing env_bk (str_path (Path_of (destination cfg_docs))) = Entries items_bk \<and>
   list_all d_del_ok (backups_of (name cfg_docs) items_bk) \<and>
   max_backups cfg_docs = 3 \<and> length (backups_of (name cfg_docs) items_bk) = 6 \<and>
   removed (snd (create_backup md5_ex env_bk ''docs'' st_docs)) =
     [Unlink ''/bk/docs_20231210_120000.tar.gz'', Unlink ''/bk/docs_20231201_120000.tar.gz'',
      Rmtree ''/bk/docs_extra_20231101_120000'']"
proof -
  have h1: "configs st_docs ''docs'' = Some cfg_docs" by (simp add: st_docs_def st_empty_def)
  have h2: "fst (create_backup md5_ex env_bk ''docs'' st_docs) = Inr True" by code_simp
  have h3: "dest_listing env_bk (str_path (Path_of (destination cfg_docs))) = Entries items_bk"
    by code_simp
  have h4': "list_all d_del_ok (backups_of (name cfg_docs) items_bk)" by code_simp
  then have h4: "\<forall>b\<in>set (backups_of (name cfg_docs) items_bk). d_del_ok b"
    by (simp add: list_all_iff)
  have m: "max_backups cfg_docs = 3" by (simp add: cfg_docs_def)
  have n: "length (backups_of (name cfg_docs) items_bk) = 6" by code_simp
  have h5: "0 \<le> max_backups cfg_docs" using m by simp
  have h6: "int (length (backups_of (name cfg_docs) items_bk)) > max_backups cfg_docs"
    using m n by simp
  have g: "map (\<lambda>b. if d_is_dir b
                     then Rmtree (str_path (child (Path_of (destination cfg_docs)) (dname b)))
                     else Unlink (str_path (child (Path_of (destination cfg_docs)) (dname b))))
             (drop (nat (max_backups cfg_docs)) (sort_backups (backups_of (name cfg_docs) items_bk)))
     = [Unlink ''/bk/docs_20231210_120000.tar.gz'', Unlink ''/bk/docs_20231201_120000.tar.gz'',
        Rmtree ''/bk/docs_extra_20231101_120000'']"
    by code_simp
  from retention_cap[OF h1 h2 h3 h4 h5 h6] g
  have "removed (snd (create_backup md5_ex env_bk ''docs'' st_docs)) =
     [Unlink ''/bk/docs_20231210_120000.tar.gz'', Unlink ''/bk/docs_20231201_120000.tar.gz'',
      Rmtree ''/bk/docs_extra_20231101_120000'']"
    by simp
  with h1 h2 h3 h4' m n show ?thesis by simp
qed

section \<open>Backup sets with overlapping names\<close>

text \<open>
  Claim C8. Pruning for a backup set named \<open>X\<close> takes every entry of the destination
  whose name starts with \<open>X_\<close>. When the name \<open>Y\<close> of another backup set itself starts
  with \<open>X_\<close>, every snapshot of \<open>Y\<close> (its name starts with \<open>Y_\<close>) is among them: it is
  counted against the cap of \<open>X\<close> and, in a run of \<open>X\<close> that prunes, it is either among
  the entries kept or it is deleted.
\<close>

theorem prune_takes_overlapping_names:
  assumes cfg: "configs s0 cn = Some config"
    and ret: "fst (create_backup md5 e cn s0) = Inr b"
    and ls: "dest_listing e (str_path (Path_of (destination config))) = Entries items"
    and del: "\<forall>b\<in>set (backups_of (name config) items). d_del_ok b"
    and cap: "0 \<le> max_backups config"
      "int (length (backups_of (name config) items)) > max_backups config"
    and ov: "prefix (name config @ ''_'') y" "item \<in> set items" "prefix (y @ ''_'') (dname item)"
  shows "item \<in> set (backups_of (name config) items) \<and>
         (item \<in> set (take (nat (max_backups config))
                        (sort_backups (backups_of (name config) items))) \<or>
          (if d_is_dir item
           then Rmtree (str_path (child (Path_of (destination config)) (dname item)))
           else Unlink (str_path (child (Path_of (destination config)) (dname item))))
            \<in> set (removed (snd (create_backup md5 e cn s0))))"
proof -
  let ?bs = "sort_backups (backups_of (name config) items)"
  let ?m = "nat (max_backups config)"
  have 1: "item \<in> set (backups_of (name config) items)" by (rule backups_of_overlap[OF ov])
  then have "item \<in> set ?bs" by (metis mset_sort_backups set_mset_mset)
  then have "item \<in> set (take ?m ?bs) \<or> item \<in> set (drop ?m ?bs)"
    by (metis Un_iff append_take_drop_id set_append)
  then show ?thesis
    using 1 run_removed[OF cfg ret ls del cap] by auto
qed

theorem prune_takes_overlapping_names_witness:
  "configs st_docs ''docs'' = Some cfg_docs \<and>
   fst (create_backup md5_ex env_bk ''docs'' st_docs) = Inr True \<and>
   prefix (name cfg_docs @ ''_'') ''docs_extra'' \<and>
   prefix (''docs_extra'' @ ''_'') (dname (items_bk ! 3)) \<and>
   items_bk ! 3 \<in> set (backups_of (name cfg_docs) items_bk) \<and>
   Rmtree ''/bk/docs_extra_20231101_120000''
     \<in> set (removed (snd (create_backup md5_ex env_bk ''docs'' st_docs)))"
proof -
  let ?it = "items_bk ! 3"
  have h1: "configs st_docs ''docs'' = Some cfg_docs" by (simp add: st_docs_def st_empty_def)
  have h2: "fst (create_backup md5_ex env_bk ''docs'' st_docs) = Inr True" by code_simp
  have h3: "dest_listing env_bk (str_path (Path_of (destination cfg_docs))) = Entries items_bk"
    by code_simp
  have "list_all d_del_ok (backups_of (name cfg_docs) items_bk)" by code_simp
  then have h4: "\<forall>b\<in>set (backups_of (name cfg_docs) items_bk). d_del_ok b"
    by (simp add: list_all_iff)
  have m: "max_backups cfg_docs = 3" by (simp add: cfg_docs_def)
  have n: "length (backups_of (name cfg_docs) items_bk) = 6" by code_simp
  have h5: "0 \<le> max_backups cfg_docs" using m by simp
  have h6: "int (length (backups_of (name cfg_docs) items_bk)) > max_backups cfg_docs"
    using m n by simp
  have o1: "prefix (name cfg_docs @ ''_'') ''docs_extra''" by code_simp
  have o2: "?it \<in> set items_bk" by (simp add: items_bk_def)
  have o3: "prefix (''docs_extra'' @ ''_'') (dname ?it)" by code_simp
  have k: "?it \<notin> set (take (nat (max_backups cfg_docs))
                        (sort_backups (backups_of (name cfg_docs) items_bk)))"
    by code_simp
  have d: "d_is_dir ?it"
    "str_path (child (Path_of (destination cfg_docs)) (dname ?it)) = ''/bk/docs_extra_20231101_120000''"
    by code_simp+
  from prune_takes_overlapping_names[OF h1 h2 h3 h4 h5 h6 o1 o2 o3] k d
  have "?it \<in> set (backups_of (name cfg_docs) items_bk) \<and>
        Rmtree ''/bk/docs_extra_20231101_120000''
          \<in> set (removed (snd (create_backup md5_ex env_bk ''docs'' st_docs)))"
    by simp
  with h1 h2 o1 o3 show ?thesis by simp
qed

section \<open>Files that cannot be read\<close>




section \<open>Copy failures\<close>

text \<open>
  What the \<^verbatim>\<open>try\<close> block of the loop body gives. Let nothing fail in a run but
  \<^verbatim>\<open>shutil.copy2\<close> on some files. Then the run returns \<open>True\<close>; the counter
  \<open>files_backed_up\<close> is the number of copies made, each a copy that succeeded; and every
  file the run reaches that qualifies against the index of the start (full mode, or
  changed) has been copied or has its failure logged.
\<close>

lemma copy2_failure_resilience:
  assumes cfg: "configs s0 cn = Some config"
    and mk: "\<forall>d. mkdir_exist_ok e d"
    and ok: "\<forall>u. expand_home e u \<noteq> None" "\<forall>p. src_exists e p \<noteq> None"
      "\<forall>s. \<not> raised (cleanup_old_backups e config s)" "save_ok e"
  shows "fst (create_backup md5 e cn s0) = Inr True \<and>
         files_backed_up (snd (create_backup md5 e cn s0))
           = length (copies (snd (create_backup md5 e cn s0))) \<and>
         (\<forall>x\<in>set (copies (snd (create_backup md5 e cn s0))). copy2_ok e (fst x) (snd x)) \<and>
         (\<forall>f\<in>set (visited e config).
            (\<not> incremental config \<or> should_backup_file md5 e (backup_index s0) f cn) \<longrightarrow>
            str_path f \<in> fst ` set (copies (snd (create_backup md5 e cn s0))) \<or>
            CopyError (str_path f) \<in> set (logger (snd (create_backup md5 e cn s0))))"
proof -
  let ?s' = "snd (create_backup md5 e cn s0)"
  let ?s = "s0\<lparr>files_backed_up := 0, total_size := 0, copies := [], removed := []\<rparr>"
  let ?d = "snapshot_path e config cn"
  let ?loop = "for_each (backup_source md5 e config cn ?d) (source_dirs config) (begin_run cn ?d ?s)"
  have ret: "fst (create_backup md5 e cn s0) = Inr True"
    by (rule create_backup_no_raise[OF cfg mk ok])
  from create_backup_returned[OF cfg ret] obtain s3 where
    s3: "?loop = Done s3" and c3: "copies ?s' = copies s3"
    and l3: "set (logger s3) \<subseteq> set (logger ?s')" by blast
  let ?P = "\<lambda>s. \<forall>k. k \<notin> fst ` set (copies s) \<longrightarrow>
                  config_index (backup_index s) cn k = config_index (backup_index s0) cn k"
  let ?Q = "\<lambda>f s. (\<not> incremental config \<or> should_backup_file md5 e (backup_index s0) f cn) \<longrightarrow>
               str_path f \<in> fst ` set (copies s) \<or> CopyError (str_path f) \<in> set (logger s)"
  have nr: "\<not> raised ?loop" using s3 by simp
  have "\<forall>f\<in>set (visited e config). ?Q f (state_of ?loop)"
  proof (rule backup_sources_all[where P="?P" and Q="?Q", OF nr], goal_cases)
    case 1
    show ?case by simp
  next
    case (2 entry s)
    then show ?case by simp
  next
    case (3 f entry s)
    then show ?case by auto
  next
    case (4 sp root fname s)
    show ?case
      by (rule backup_file_cases[of md5 e config cn ?d sp root fname s])
         (use 4 in \<open>auto simp: config_index_upd\<close>)
  next
    case (5 sp root fname s)
    have sb: "str_path (child root fname) \<notin> fst ` set (copies s) \<Longrightarrow>
        should_backup_file md5 e (backup_index s) (child root fname) cn
        = should_backup_file md5 e (backup_index s0) (child root fname) cn"
      using 5(1) by (intro should_backup_file_cong) simp
    show ?case
      by (rule backup_file_cases[of md5 e config cn ?d sp root fname s])
         (use 5 sb in auto)
  next
    case (6 f sp root fname s)
    show ?case
      by (rule backup_file_cases[of md5 e config cn ?d sp root fname s])
         (use 6 in auto)
  qed
  then have "\<forall>f\<in>set (visited e config). ?Q f s3" unfolding s3 state_of.simps .
  then have last: "\<forall>f\<in>set (visited e config). ?Q f ?s'"
    using c3 l3 by auto
  from ret run_count[of md5 e cn s0] last show ?thesis by blast
qed

text \<open>
  Claim C5. The claim fails on the code when the failure of a single file is raised by
  \<^verbatim>\<open>dest_file_path.parent.mkdir\<close>, which stands before the \<^verbatim>\<open>try\<close> block. Here
  every file can be read and every \<^verbatim>\<open>copy2\<close> succeeds, but the directory for the copy of
  \<^verbatim>\<open>cache/c.tmp\<close> cannot be made: the exception leaves \<^verbatim>\<open>create_backup\<close>. The two
  files before it are copied, the failure is not logged, the file \<^verbatim>\<open>cache/deep/d.txt\<close>
  that the run would reach next is not copied, and no result is returned.
\<close>

theorem mkdir_failure_aborts_run:
  "visited env_nodir cfg_plain =
     [Path ''/'' [''home'', ''u'', ''docs'', ''a.txt''],
      Path ''/'' [''home'', ''u'', ''docs'', ''b.txt''],
      Path ''/'' [''home'', ''u'', ''docs'', ''cache'', ''c.tmp''],
      Path ''/'' [''home'', ''u'', ''docs'', ''cache'', ''deep'', ''d.txt'']] \<and>
   copy2_ok env_nodir ''/home/u/docs/cache/deep/d.txt''
     ''/bk/docs_20240101_120000/docs/cache/deep/d.txt'' \<and>
   mkdir_ok env_nodir ''/bk/docs_20240101_120000/docs/cache/deep'' \<and>
   fst (create_backup md5_ex env_nodir ''docs'' (st_empty\<lparr>configs := [''docs'' \<mapsto> cfg_plain]\<rparr>))
     = Inl (MkdirError ''/bk/docs_20240101_120000/docs/cache'') \<and>
   copies (snd (create_backup md5_ex env_nodir ''docs'' (st_empty\<lparr>configs := [''docs'' \<mapsto> cfg_plain]\<rparr>)))
     = [(''/home/u/docs/a.txt'', ''/bk/docs_20240101_120000/docs/a.txt''),
        (''/home/u/docs/b.txt'', ''/bk/docs_20240101_120000/docs/b.txt'')] \<and>
   logger (snd (create_backup md5_ex env_nodir ''docs'' (st_empty\<lparr>configs := [''docs'' \<mapsto> cfg_plain]\<rparr>)))
     = [BackupStart ''docs'' ''/bk/docs_20240101_120000'', SourceDir ''/home/u/docs'']"
  by code_simp

section \<open>Running a backup set twice\<close>






lemma create_backup_configs [simp]:
  "configs (snd (create_backup md5 e cn s0)) = configs s0"
proof (rule create_backup_inv[where P="\<lambda>s. configs s = configs s0"], goal_cases)
  case (5 config source_path root_path fname s)
  show ?case
    by (rule backup_file_cases[of md5 e config cn "snapshot_path e config cn" source_path root_path fname s])
       (use 5 in auto)
qed auto






section \<open>A snapshot directory that already exists\<close>















end
